theory Spec2Isabelle
  imports Complex_Main "HOL-Library.Sublist"
begin

section \<open>Values, rows and the interpreter's builtins\<close>

text \<open>
  The pipeline passes Python dictionaries from stage to stage. A row is a finite map from
  column names to dynamically typed values. The values are those a CSV cell, a JSON
  document and the code itself can produce: \<open>None\<close> (a short CSV line, a JSON null),
  \<open>bool\<close>, \<open>str\<close> (every CSV cell), \<open>int\<close> (the cleaned quantity, a stock level),
  \<open>float\<close> (the cleaned price and total), lists (the anomaly flags, a JSON array) and
  dictionaries with string keys (a JSON object, each key once, as \<open>json.load\<close> returns it).
  Floats are kept abstract: the type variable \<open>'f\<close> stands for IEEE doubles and every
  operation on them is a field of \<open>builtins\<close> below, so that nothing proved here depends on
  how a double rounds.
\<close>

datatype 'f pyval =
    PNone
  | PBool bool
  | PStr string
  | PInt int
  | PFloat 'f
  | PList "'f pyval list"
  | PDict "(string \<times> 'f pyval) list"

type_synonym 'f row = "string \<rightharpoonup> 'f pyval"

datatype error =
    KeyError
  | ValueError
  | TypeError
  | OverflowError
  | RuntimeError
  | IntegrityError
  | InterfaceError
  | OperationalError
  | AttributeError
  | UnicodeDecodeError

text \<open>
  The functions of the interpreter and its standard library that the pipeline calls. They are
  parameters of every definition below: \<open>int(s)\<close> and \<open>float(s)\<close> on a string (\<open>None\<close>
  is the \<open>ValueError\<close>), \<open>int(x)\<close> on a float (which raises on \<open>nan\<close> and \<open>inf\<close>),
  the conversion of an int to a float (\<open>None\<close> is the \<open>OverflowError\<close> of an int too large
  for a double), float literals, comparison and multiplication, \<open>round(x, 2)\<close>,
  \<open>datetime.strptime\<close> (\<open>None\<close> is the \<open>ValueError\<close>), \<open>strftime\<close> and \<open>str\<close>.
\<close>

record ('f, 'd) builtins =
  int_of_str :: "string \<Rightarrow> int option"
  int_of_float :: "'f \<Rightarrow> error + int"
  float_of_str :: "string \<Rightarrow> 'f option"
  float_of_int :: "int \<Rightarrow> 'f option"
  float_const :: "rat \<Rightarrow> 'f"
  float_lt :: "'f \<Rightarrow> 'f \<Rightarrow> bool"
  float_eq :: "'f \<Rightarrow> 'f \<Rightarrow> bool"
  float_mul :: "'f \<Rightarrow> 'f \<Rightarrow> 'f"
  round2 :: "'f \<Rightarrow> 'f"
  strptime :: "string \<Rightarrow> string \<Rightarrow> 'd option"
  strftime :: "'d \<Rightarrow> string \<Rightarrow> string"
  str_of :: "'f pyval \<Rightarrow> string"

text \<open>Truth value of an object, as \<open>not x\<close> and \<open>if x\<close> test it.\<close>

fun truthy :: "('f, 'd) builtins \<Rightarrow> 'f pyval \<Rightarrow> bool" where
  "truthy B PNone = False"
| "truthy B (PBool b) = b"
| "truthy B (PStr s) = (s \<noteq> [])"
| "truthy B (PInt i) = (i \<noteq> 0)"
| "truthy B (PFloat x) = (\<not> float_eq B x (float_const B 0))"
| "truthy B (PList xs) = (xs \<noteq> [])"
| "truthy B (PDict kvs) = (kvs \<noteq> [])"

text \<open>\<open>row.get(key)\<close> used as a condition: a missing key gives \<open>None\<close>, which is false.\<close>

definition get_truthy :: "('f, 'd) builtins \<Rightarrow> 'f row \<Rightarrow> string \<Rightarrow> bool" where
  "get_truthy B row k = (case row k of None \<Rightarrow> False | Some v \<Rightarrow> truthy B v)"

text \<open>\<open>int(v)\<close>. A bool is the int 0 or 1.\<close>

fun py_int :: "('f, 'd) builtins \<Rightarrow> 'f pyval \<Rightarrow> error + int" where
  "py_int B PNone = Inl TypeError"
| "py_int B (PBool b) = Inr (if b then 1 else 0)"
| "py_int B (PStr s) = (case int_of_str B s of None \<Rightarrow> Inl ValueError | Some i \<Rightarrow> Inr i)"
| "py_int B (PInt i) = Inr i"
| "py_int B (PFloat x) = int_of_float B x"
| "py_int B (PList xs) = Inl TypeError"
| "py_int B (PDict kvs) = Inl TypeError"

text \<open>\<open>float(v)\<close>.\<close>

fun py_float :: "('f, 'd) builtins \<Rightarrow> 'f pyval \<Rightarrow> error + 'f" where
  "py_float B PNone = Inl TypeError"
| "py_float B (PBool b) =
     (case float_of_int B (if b then 1 else 0) of None \<Rightarrow> Inl OverflowError | Some x \<Rightarrow> Inr x)"
| "py_float B (PStr s) = (case float_of_str B s of None \<Rightarrow> Inl ValueError | Some x \<Rightarrow> Inr x)"
| "py_float B (PInt i) = (case float_of_int B i of None \<Rightarrow> Inl OverflowError | Some x \<Rightarrow> Inr x)"
| "py_float B (PFloat x) = Inr x"
| "py_float B (PList xs) = Inl TypeError"
| "py_float B (PDict kvs) = Inl TypeError"

text \<open>\<open>q * p\<close> for an int \<open>q\<close> and a float \<open>p\<close>: the int is converted first.\<close>

definition int_times_float :: "('f, 'd) builtins \<Rightarrow> int \<Rightarrow> 'f \<Rightarrow> error + 'f" where
  "int_times_float B q p =
     (case float_of_int B q of None \<Rightarrow> Inl OverflowError | Some x \<Rightarrow> Inr (float_mul B x p))"

section \<open>etl/transformer.py: validate\_row\<close>

text \<open>
  Each block of \<open>validate_row\<close> ends in one of three ways: an exception leaves the function
  (\<open>Raise\<close>), the row is dropped with one fatal issue (\<open>Reject\<close>, the early
  \<open>return False, None, [issue]\<close>), or control goes on to the next block (\<open>Continue\<close>).
  The \<open>except (ValueError, TypeError)\<close> clauses catch these two errors only: a
  \<open>KeyError\<close> of \<open>row["quantity"]\<close> or \<open>row["order_date"]\<close> and an
  \<open>OverflowError\<close> leave the function.
\<close>

datatype 'a outcome = Raise error | Reject string | Continue 'a

definition caught :: "error \<Rightarrow> bool" where
  "caught e = (e = ValueError \<or> e = TypeError)"

definition validate_email :: "('f, 'd) builtins \<Rightarrow> 'f row \<Rightarrow> 'f row \<times> string list" where
  "validate_email B row =
     (if \<not> get_truthy B row ''email''
      then (row(''email'' \<mapsto> PStr ''unknown@placeholder.com''), [''missing_email''])
      else (row, []))"

definition validate_quantity ::
  "('f, 'd) builtins \<Rightarrow> 'f row \<Rightarrow> 'f row \<times> string list \<Rightarrow> ('f row \<times> string list) outcome" where
  "validate_quantity B row st =
     (case st of (cleaned, issues) \<Rightarrow>
      (case row ''quantity'' of
         None \<Rightarrow> Raise KeyError
       | Some v \<Rightarrow>
          (case py_int B v of
             Inl e \<Rightarrow> if caught e then Reject ''invalid_quantity_type'' else Raise e
           | Inr quantity \<Rightarrow>
               if quantity \<le> 0
               then Continue (cleaned(''quantity'' \<mapsto> PInt 1), issues @ [''invalid_quantity''])
               else Continue (cleaned(''quantity'' \<mapsto> PInt quantity), issues))))"

text \<open>\<open>float(row["unit_price"]) if row.get("unit_price") else 0.0\<close>\<close>

definition read_price :: "('f, 'd) builtins \<Rightarrow> 'f row \<Rightarrow> error + 'f" where
  "read_price B row =
     (case row ''unit_price'' of
        None \<Rightarrow> Inr (float_const B 0)
      | Some v \<Rightarrow> if truthy B v then py_float B v else Inr (float_const B 0))"

definition validate_unit_price ::
  "('f, 'd) builtins \<Rightarrow> 'f row \<Rightarrow> 'f row \<times> string list \<Rightarrow> ('f row \<times> string list) outcome" where
  "validate_unit_price B row st =
     (case st of (cleaned, issues) \<Rightarrow>
      (case read_price B row of
         Inl e \<Rightarrow> if caught e then Reject ''invalid_price_type'' else Raise e
       | Inr price \<Rightarrow>
           if float_lt B price (float_const B 0)
           then Continue (cleaned(''unit_price'' \<mapsto> PFloat (float_const B 0)),
                          issues @ [''negative_price''])
           else if float_eq B price (float_const B 0)
           then Continue (cleaned(''unit_price'' \<mapsto> PFloat price), issues @ [''zero_price''])
           else Continue (cleaned(''unit_price'' \<mapsto> PFloat price), issues)))"

definition date_formats :: "string list" where
  "date_formats = [''%Y-%m-%d'', ''%d/%m/%Y'', ''%m-%d-%Y'', ''%b %d %Y'']"

text \<open>
  The loop over the formats: the first format that parses wins. \<open>strptime\<close> of a value that
  is not a string raises \<open>TypeError\<close>, which the loop catches like a \<open>ValueError\<close>.
\<close>

fun try_formats :: "('f, 'd) builtins \<Rightarrow> 'f pyval \<Rightarrow> string list \<Rightarrow> 'd option" where
  "try_formats B v [] = None"
| "try_formats B v (fmt # fmts) =
     (case v of
        PStr s \<Rightarrow> (case strptime B s fmt of Some d \<Rightarrow> Some d | None \<Rightarrow> try_formats B v fmts)
      | _ \<Rightarrow> try_formats B v fmts)"

definition validate_order_date ::
  "('f, 'd) builtins \<Rightarrow> 'f row \<Rightarrow> 'f row \<times> string list \<Rightarrow> ('f row \<times> string list) outcome" where
  "validate_order_date B row st =
     (case st of (cleaned, issues) \<Rightarrow>
      (case row ''order_date'' of
         None \<Rightarrow> Raise KeyError
       | Some v \<Rightarrow>
          (case try_formats B v date_formats of
             None \<Rightarrow> Reject ''unparseable_date''
           | Some d \<Rightarrow> Continue (cleaned(''order_date'' \<mapsto> PStr (strftime B d ''%Y-%m-%d'')), issues))))"

text \<open>
  \<open>cleaned["total"] = round(cleaned["quantity"] * cleaned["unit_price"], 2)\<close>. Both fields
  were assigned by the blocks above, an int and a float, so the product is an int times a
  float; no other combination of types reaches this line.
\<close>

definition calculate_total ::
  "('f, 'd) builtins \<Rightarrow> 'f row \<times> string list \<Rightarrow> ('f row \<times> string list) outcome" where
  "calculate_total B st =
     (case st of (cleaned, issues) \<Rightarrow>
      (case (cleaned ''quantity'', cleaned ''unit_price'') of
         (Some (PInt q), Some (PFloat p)) \<Rightarrow>
           (case int_times_float B q p of
              Inl e \<Rightarrow> Raise e
            | Inr x \<Rightarrow> Continue (cleaned(''total'' \<mapsto> PFloat (round2 B x)), issues))
       | (Some a, Some b) \<Rightarrow> Raise TypeError
       | _ \<Rightarrow> Raise KeyError))"

definition and_then :: "'a outcome \<Rightarrow> ('a \<Rightarrow> 'b outcome) \<Rightarrow> 'b outcome" where
  "and_then x f = (case x of Raise e \<Rightarrow> Raise e | Reject i \<Rightarrow> Reject i | Continue a \<Rightarrow> f a)"

text \<open>
  The result is the tuple \<open>(is_valid, cleaned_row, issues)\<close>, or the exception that leaves
  the function. The row number is used in log messages only.
\<close>

definition validate_row ::
  "('f, 'd) builtins \<Rightarrow> 'f row \<Rightarrow> nat \<Rightarrow> error + (bool \<times> 'f row option \<times> string list)" where
  "validate_row B row row_num =
     (if \<not> get_truthy B row ''order_id'' then Inr (False, None, [''missing_order_id''])
      else if \<not> get_truthy B row ''product_id'' then Inr (False, None, [''missing_product_id''])
      else
        (case and_then (and_then (and_then
                 (validate_quantity B row (validate_email B row))
                 (validate_unit_price B row))
                 (validate_order_date B row))
                 (calculate_total B) of
           Raise e \<Rightarrow> Inl e
         | Reject issue \<Rightarrow> Inr (False, None, [issue])
         | Continue (cleaned, issues) \<Rightarrow> Inr (True, Some cleaned, issues)))"

section \<open>etl/transformer.py: anomalies, duplicates, enrichment\<close>

text \<open>
  \<open>v > c\<close> and \<open>v < c\<close> for a numeric literal \<open>c\<close> (the thresholds \<open>500.00\<close>, \<open>20\<close>
  and \<open>10\<close>, all exact as doubles): an int is compared exactly, a float by the float
  comparison, a bool as the int 0 or 1, and \<open>None\<close>, a string, a list or a dictionary
  raises \<open>TypeError\<close>.
\<close>

fun py_gt :: "('f, 'd) builtins \<Rightarrow> 'f pyval \<Rightarrow> rat \<Rightarrow> error + bool" where
  "py_gt B (PInt i) c = Inr (c < of_int i)"
| "py_gt B (PBool b) c = Inr (c < (if b then 1 else 0))"
| "py_gt B (PFloat x) c = Inr (float_lt B (float_const B c) x)"
| "py_gt B _ c = Inl TypeError"

fun py_lt :: "('f, 'd) builtins \<Rightarrow> 'f pyval \<Rightarrow> rat \<Rightarrow> error + bool" where
  "py_lt B (PInt i) c = Inr (of_int i < c)"
| "py_lt B (PBool b) c = Inr ((if b then 1 else 0) < c)"
| "py_lt B (PFloat x) c = Inr (float_lt B x (float_const B c))"
| "py_lt B _ c = Inl TypeError"

definition HIGH_VALUE_ORDER_THRESHOLD :: rat where
  "HIGH_VALUE_ORDER_THRESHOLD = 500"

definition HIGH_QUANTITY_THRESHOLD :: rat where
  "HIGH_QUANTITY_THRESHOLD = 20"

definition LOW_STOCK_THRESHOLD :: rat where
  "LOW_STOCK_THRESHOLD = 10"

text \<open>
  One rule of \<open>detect_anomalies\<close>: \<open>row.get(key, 0)\<close> compared with a threshold. When the
  rule fires, the warning is built from \<open>row["order_id"]\<close>, which raises \<open>KeyError\<close> on a
  row without that key.
\<close>

definition anomaly_rule ::
  "('f, 'd) builtins \<Rightarrow> 'f row \<Rightarrow> string \<Rightarrow> rat \<Rightarrow> string \<Rightarrow> error + string list" where
  "anomaly_rule B row k threshold alert =
     (case py_gt B (case row k of None \<Rightarrow> PInt 0 | Some v \<Rightarrow> v) threshold of
        Inl e \<Rightarrow> Inl e
      | Inr False \<Rightarrow> Inr []
      | Inr True \<Rightarrow> (case row ''order_id'' of None \<Rightarrow> Inl KeyError | Some _ \<Rightarrow> Inr [alert]))"

definition detect_anomalies :: "('f, 'd) builtins \<Rightarrow> 'f row \<Rightarrow> nat \<Rightarrow> error + string list" where
  "detect_anomalies B row row_num =
     (case anomaly_rule B row ''total'' HIGH_VALUE_ORDER_THRESHOLD ''high_value'' of
        Inl e \<Rightarrow> Inl e
      | Inr a1 \<Rightarrow>
         (case anomaly_rule B row ''quantity'' HIGH_QUANTITY_THRESHOLD ''high_quantity'' of
            Inl e \<Rightarrow> Inl e
          | Inr a2 \<Rightarrow> Inr (a1 @ a2)))"

text \<open>
  Dictionary and set keys. A list or a dictionary is unhashable: using it as a key raises
  \<open>TypeError\<close>.
  Keys are compared by equality of values, which is Python's \<open>==\<close> on strings and
  \<open>None\<close>; the identifiers of the pipeline are CSV strings, and the theorems about keys
  are stated for string identifiers.
\<close>

fun hashable :: "'f pyval \<Rightarrow> bool" where
  "hashable (PList xs) = False"
| "hashable (PDict kvs) = False"
| "hashable _ = True"

fun is_str :: "'f pyval \<Rightarrow> bool" where
  "is_str (PStr s) = True"
| "is_str _ = False"

fun is_num :: "'f pyval \<Rightarrow> bool" where
  "is_num (PInt i) = True"
| "is_num (PBool b) = True"
| "is_num (PFloat x) = True"
| "is_num _ = False"

text \<open>
  The loop of \<open>check_duplicates\<close>, with its three local variables: \<open>seen\<close> (order id to the
  position of its first occurrence), \<open>unique_rows\<close> and \<open>duplicate_count\<close>.
\<close>

fun dedup_loop ::
  "'f row list \<Rightarrow> ('f pyval \<rightharpoonup> nat) \<times> 'f row list \<times> nat \<Rightarrow>
   error + (('f pyval \<rightharpoonup> nat) \<times> 'f row list \<times> nat)" where
  "dedup_loop [] st = Inr st"
| "dedup_loop (row # rows) (seen, unique_rows, duplicate_count) =
     (case row ''order_id'' of
        None \<Rightarrow> Inl KeyError
      | Some order_id \<Rightarrow>
          if \<not> hashable order_id then Inl TypeError
          else
            (case seen order_id of
               Some first_seen \<Rightarrow> dedup_loop rows (seen, unique_rows, duplicate_count + 1)
             | None \<Rightarrow>
                 dedup_loop rows
                   (seen(order_id \<mapsto> length unique_rows), unique_rows @ [row],
                    duplicate_count)))"

definition check_duplicates :: "'f row list \<Rightarrow> error + 'f row list" where
  "check_duplicates rows =
     (case dedup_loop rows (Map.empty, [], 0) of
        Inl e \<Rightarrow> Inl e
      | Inr (seen, unique_rows, duplicate_count) \<Rightarrow> Inr unique_rows)"

text \<open>
  \<open>product_lookup = {p["product_id"]: p for p in product_catalog}\<close>: a later entry with
  the same id replaces an earlier one.
\<close>

fun build_lookup ::
  "'f row list \<Rightarrow> ('f pyval \<rightharpoonup> 'f row) \<Rightarrow> error + ('f pyval \<rightharpoonup> 'f row)" where
  "build_lookup [] m = Inr m"
| "build_lookup (p # ps) m =
     (case p ''product_id'' of
        None \<Rightarrow> Inl KeyError
      | Some k \<Rightarrow> if hashable k then build_lookup ps (m(k \<mapsto> p)) else Inl TypeError)"

text \<open>
  The branch of the loop for a product that is in the catalog. The three fields are read
  with \<open>product[...]\<close>, the debug message reads \<open>row["order_id"]\<close>, and the stock is
  compared with the threshold; each can raise.
\<close>

definition enrich_found :: "('f, 'd) builtins \<Rightarrow> 'f row \<Rightarrow> 'f row \<Rightarrow> error + 'f row" where
  "enrich_found B row product =
     (case product ''name'' of None \<Rightarrow> Inl KeyError | Some name \<Rightarrow>
      (case product ''category'' of None \<Rightarrow> Inl KeyError | Some category \<Rightarrow>
       (case product ''stock'' of None \<Rightarrow> Inl KeyError | Some stock \<Rightarrow>
        (case row ''order_id'' of None \<Rightarrow> Inl KeyError | Some _ \<Rightarrow>
         (case py_lt B stock LOW_STOCK_THRESHOLD of
            Inl e \<Rightarrow> Inl e
          | Inr low \<Rightarrow>
              Inr (row(''product_name'' \<mapsto> name, ''category'' \<mapsto> category,
                       ''current_stock'' \<mapsto> stock)))))))"

definition enrich_missing :: "'f row \<Rightarrow> 'f row" where
  "enrich_missing row =
     row(''product_name'' \<mapsto> PStr ''UNKNOWN'', ''category'' \<mapsto> PStr ''UNKNOWN'',
         ''current_stock'' \<mapsto> PInt (- 1))"

text \<open>
  The loop of \<open>enrich_with_products\<close>. The state is the list \<open>enriched\<close> and the set
  \<open>missing_products\<close>, kept as a list without repetitions (\<open>List.insert\<close> adds an element
  only if it is not there). An entry of the lookup has the key \<open>product_id\<close>, so it is a
  non-empty dictionary and \<open>if product\<close> holds for it.
\<close>

fun enrich_loop ::
  "('f, 'd) builtins \<Rightarrow> ('f pyval \<rightharpoonup> 'f row) \<Rightarrow> 'f row list \<Rightarrow> 'f row list \<times> 'f pyval list \<Rightarrow>
   error + ('f row list \<times> 'f pyval list)" where
  "enrich_loop B lookup [] st = Inr st"
| "enrich_loop B lookup (row # rows) (enriched, missing_products) =
     (case row ''product_id'' of
        None \<Rightarrow> Inl KeyError
      | Some pid \<Rightarrow>
          if \<not> hashable pid then Inl TypeError
          else
            (case lookup pid of
               Some product \<Rightarrow>
                 (case enrich_found B row product of
                    Inl e \<Rightarrow> Inl e
                  | Inr row' \<Rightarrow> enrich_loop B lookup rows (enriched @ [row'], missing_products))
             | None \<Rightarrow>
                 enrich_loop B lookup rows
                   (enriched @ [enrich_missing row], List.insert pid missing_products)))"

text \<open>
  \<open>sorted(missing_products)\<close> in the final warning: sorting needs the elements to be
  comparable, so a set of two or more elements that are not all strings or all numbers
  raises \<open>TypeError\<close>.
\<close>

definition sortable :: "'f pyval list \<Rightarrow> bool" where
  "sortable xs = (length xs \<le> 1 \<or> list_all is_str xs \<or> list_all is_num xs)"

definition enrich_state ::
  "('f, 'd) builtins \<Rightarrow> 'f row list \<Rightarrow> 'f row list \<Rightarrow> error + ('f row list \<times> 'f pyval list)" where
  "enrich_state B rows product_catalog =
     (case build_lookup product_catalog Map.empty of
        Inl e \<Rightarrow> Inl e
      | Inr lookup \<Rightarrow>
         (case enrich_loop B lookup rows ([], []) of
            Inl e \<Rightarrow> Inl e
          | Inr (enriched, missing_products) \<Rightarrow>
              if missing_products \<noteq> [] \<and> \<not> sortable missing_products then Inl TypeError
              else Inr (enriched, missing_products)))"

definition enrich_with_products ::
  "('f, 'd) builtins \<Rightarrow> 'f row list \<Rightarrow> 'f row list \<Rightarrow> error + 'f row list" where
  "enrich_with_products B rows product_catalog =
     (case enrich_state B rows product_catalog of
        Inl e \<Rightarrow> Inl e
      | Inr (enriched, missing_products) \<Rightarrow> Inr enriched)"

section \<open>etl/transformer.py: run\_transformation\<close>

text \<open>
  The messages the pipeline logs at the start and end of each phase and around each batch
  of the loader. The model returns them in order; the other log lines are left out.
\<close>

datatype event =
    PipelineStarted
  | ExtractionStarted
  | ExtractionComplete nat nat nat nat
  | PrimarySourceEmpty
  | ExtractionFailed
  | TransformationStarted
  | ValidationComplete nat nat
  | TransformationComplete nat nat nat nat
  | TransformationFailed
  | LoadingStarted
  | BatchProcessing nat nat
  | ConnectionLost nat nat nat
  | RollbackSuccessful nat nat nat
  | BatchCommitted nat
  | LoadingComplete nat nat
  | LoadingFailed
  | PipelineCompleted

definition count_issue :: "(string \<rightharpoonup> nat) \<Rightarrow> string \<Rightarrow> (string \<rightharpoonup> nat)" where
  "count_issue total_issues issue =
     total_issues(issue \<mapsto> (case total_issues issue of None \<Rightarrow> 0 | Some c \<Rightarrow> c) + 1)"

text \<open>
  Step 1, the loop over \<open>enumerate(raw_rows, start=1)\<close>. \<open>validate_row\<close> never returns
  \<open>True\<close> together with \<open>None\<close>; that case is mapped to the \<open>TypeError\<close> a \<open>None\<close> among
  the valid rows would raise in step 2.
\<close>

fun validate_loop ::
  "('f, 'd) builtins \<Rightarrow> 'f row list \<Rightarrow> nat \<Rightarrow> 'f row list \<times> nat \<times> (string \<rightharpoonup> nat) \<Rightarrow>
   error + ('f row list \<times> nat \<times> (string \<rightharpoonup> nat))" where
  "validate_loop B [] i st = Inr st"
| "validate_loop B (row # rows) i (valid_rows, skipped_rows, total_issues) =
     (case validate_row B row i of
        Inl e \<Rightarrow> Inl e
      | Inr (True, Some cleaned, issues) \<Rightarrow>
          validate_loop B rows (i + 1)
            (valid_rows @ [cleaned], skipped_rows, foldl count_issue total_issues issues)
      | Inr (True, None, issues) \<Rightarrow> Inl TypeError
      | Inr (False, _, issues) \<Rightarrow>
          validate_loop B rows (i + 1) (valid_rows, skipped_rows + 1, total_issues))"

text \<open>Step 3, the loop that sets \<open>anomaly_flags\<close> on every row and counts the flagged rows.\<close>

fun anomaly_loop ::
  "('f, 'd) builtins \<Rightarrow> 'f row list \<Rightarrow> nat \<Rightarrow> 'f row list \<times> nat \<Rightarrow> error + ('f row list \<times> nat)" where
  "anomaly_loop B [] i st = Inr st"
| "anomaly_loop B (row # rows) i (done, anomaly_count) =
     (case detect_anomalies B row i of
        Inl e \<Rightarrow> Inl e
      | Inr alerts \<Rightarrow>
          anomaly_loop B rows (i + 1)
            (done @ [row(''anomaly_flags'' \<mapsto> PList (map PStr alerts))],
             if alerts \<noteq> [] then anomaly_count + 1 else anomaly_count))"

text \<open>
  The records of a source are used in two ways only: \<open>len\<close> and iteration. They are kept
  as the list of their elements, each a dictionary (\<open>Row\<close>) or any other value (\<open>Item\<close>).
  Iterating a string gives its characters, iterating a dictionary its keys.
\<close>

datatype 'f item = Row "'f row" | Item "'f pyval"

definition item_of :: "'f pyval \<Rightarrow> 'f item" where
  "item_of v = (case v of PDict kvs \<Rightarrow> Row (map_of kvs) | _ \<Rightarrow> Item v)"

text \<open>The dictionaries at the front of a list of records, up to the first other value.\<close>

fun rows_prefix :: "'f item list \<Rightarrow> 'f row list" where
  "rows_prefix [] = []"
| "rows_prefix (Row row # items) = row # rows_prefix items"
| "rows_prefix (Item v # items) = []"

text \<open>
  Step 1 on the records of the sales source. The loop calls \<open>row.get\<close> before it validates
  a row, which raises \<open>AttributeError\<close> on a record that is not a dictionary; the rows
  before that record have been validated by then.
\<close>

definition validate_items ::
  "('f, 'd) builtins \<Rightarrow> 'f item list \<Rightarrow> error + ('f row list \<times> nat \<times> (string \<rightharpoonup> nat))" where
  "validate_items B items =
     (let raw_rows = rows_prefix items in
      case validate_loop B raw_rows 1 ([], 0, Map.empty) of
        Inl e \<Rightarrow> Inl e
      | Inr st \<Rightarrow> if length raw_rows < length items then Inl AttributeError else Inr st)"

text \<open>
  Step 4 on the records of the catalog. \<open>p["product_id"]\<close> raises \<open>TypeError\<close> on a record
  that is not a dictionary, while the lookup is built and after the entries before that
  record have been added.
\<close>

definition enrich_items ::
  "('f, 'd) builtins \<Rightarrow> 'f row list \<Rightarrow> 'f item list \<Rightarrow> error + 'f row list" where
  "enrich_items B rows catalog =
     (let entries = rows_prefix catalog in
      if length entries = length catalog then enrich_with_products B rows entries
      else (case build_lookup entries Map.empty of
              Inl e \<Rightarrow> Inl e
            | Inr lookup \<Rightarrow> Inl TypeError))"

text \<open>
  \<open>run_transformation\<close> returns the clean rows or raises; the log lines written up to that
  point are returned in both cases.
\<close>

definition run_transformation ::
  "('f, 'd) builtins \<Rightarrow> (string \<rightharpoonup> 'f item list) \<Rightarrow> event list \<times> (error + 'f row list)" where
  "run_transformation B extracted_data =
     (case extracted_data ''sales_data'' of
        None \<Rightarrow> ([TransformationStarted], Inl KeyError)
      | Some raw_rows \<Rightarrow>
     (case extracted_data ''product_catalog'' of
        None \<Rightarrow> ([TransformationStarted], Inl KeyError)
      | Some product_catalog \<Rightarrow>
     (case validate_items B raw_rows of
        Inl e \<Rightarrow> ([TransformationStarted], Inl e)
      | Inr (valid_rows, skipped_rows, total_issues) \<Rightarrow>
     (let log1 = [TransformationStarted, ValidationComplete (length valid_rows) skipped_rows] in
      case check_duplicates valid_rows of
        Inl e \<Rightarrow> (log1, Inl e)
      | Inr unique_rows \<Rightarrow>
     (case anomaly_loop B unique_rows 1 ([], 0) of
        Inl e \<Rightarrow> (log1, Inl e)
      | Inr (flagged, anomaly_count) \<Rightarrow>
     (case enrich_items B flagged product_catalog of
        Inl e \<Rightarrow> (log1, Inl e)
      | Inr enriched \<Rightarrow>
          (log1 @ [TransformationComplete (length raw_rows) (length enriched)
                     skipped_rows anomaly_count],
           Inr enriched)))))))"

section \<open>etl/extractor.py\<close>

text \<open>
  The sources are inputs of the model. A file is \<open>None\<close> when \<open>os.path.exists\<close> is false.
  A CSV file that exists holds the rows \<open>csv.DictReader\<close> yields. A JSON file that exists
  cannot be decoded as UTF-8 (\<open>UnicodeDecodeError\<close>, which is not caught), fails to parse
  (\<open>JSONDecodeError\<close>, which is caught), or holds a document, which is any JSON value. The
  age of the CSV file only adds a warning to the log and is left out.
\<close>

datatype 'f json_file = JsonUndecodable | JsonMalformed | JsonDocument "'f pyval"

definition extract_csv :: "'f row list option \<Rightarrow> 'f row list" where
  "extract_csv file = (case file of None \<Rightarrow> [] | Some rows \<Rightarrow> rows)"

text \<open>
  \<open>key not in data\<close>: membership among the keys of a dictionary, among the elements of a
  list, as a substring of a string; any other value is not iterable and raises
  \<open>TypeError\<close>.
\<close>

definition key_in :: "string \<Rightarrow> 'f pyval \<Rightarrow> error + bool" where
  "key_in key data =
     (case data of
        PDict kvs \<Rightarrow> Inr (map_of kvs key \<noteq> None)
      | PList xs \<Rightarrow> Inr (PStr key \<in> set xs)
      | PStr s \<Rightarrow> Inr (sublist key s)
      | _ \<Rightarrow> Inl TypeError)"

text \<open>
  \<open>records = data[key]\<close> and the two log calls that follow it: \<open>data[key]\<close> raises
  \<open>TypeError\<close> unless \<open>data\<close> is a dictionary, \<open>len(records)\<close> raises \<open>TypeError\<close> on a
  value without a length, and \<open>records[0] if records else "N/A"\<close> raises \<open>KeyError\<close> on a
  non-empty dictionary, whose keys are strings.
\<close>

definition read_records :: "string \<Rightarrow> 'f pyval \<Rightarrow> error + 'f item list" where
  "read_records key data =
     (case data of
        PDict kvs \<Rightarrow>
          (case map_of kvs key of
             None \<Rightarrow> Inl KeyError
           | Some (PList xs) \<Rightarrow> Inr (map item_of xs)
           | Some (PStr s) \<Rightarrow> Inr (map (\<lambda>c. Item (PStr [c])) s)
           | Some (PDict kvs') \<Rightarrow> if kvs' = [] then Inr [] else Inl KeyError
           | Some _ \<Rightarrow> Inl TypeError)
      | _ \<Rightarrow> Inl TypeError)"

text \<open>
  \<open>extract_json\<close> returns the records or raises. When the key is not in the document, the
  error message is built from \<open>list(data.keys())\<close>, which raises \<open>AttributeError\<close> unless
  the document is a dictionary.
\<close>

definition extract_json :: "'f json_file option \<Rightarrow> string \<Rightarrow> error + 'f item list" where
  "extract_json file key =
     (case file of
        None \<Rightarrow> Inr []
      | Some JsonUndecodable \<Rightarrow> Inl UnicodeDecodeError
      | Some JsonMalformed \<Rightarrow> Inr []
      | Some (JsonDocument data) \<Rightarrow>
          (case key_in key data of
             Inl e \<Rightarrow> Inl e
           | Inr False \<Rightarrow> (case data of PDict kvs \<Rightarrow> Inr [] | _ \<Rightarrow> Inl AttributeError)
           | Inr True \<Rightarrow> read_records key data))"

text \<open>
  The random number generator is an input too: the sequence of numbers that the calls of
  \<open>random.choice\<close> draw (the index of the chosen element, taken modulo the length), the
  sequence of floats that the calls of \<open>random.random\<close> return, and how many of each have
  been used.
\<close>

record 'f rng =
  choice_draws :: "nat \<Rightarrow> nat"
  choice_pos :: nat
  random_draws :: "nat \<Rightarrow> 'f"
  random_pos :: nat

definition random_choice :: "'f rng \<Rightarrow> 'a list \<Rightarrow> 'a \<times> 'f rng" where
  "random_choice r xs =
     (xs ! (choice_draws r (choice_pos r) mod length xs), r\<lparr>choice_pos := choice_pos r + 1\<rparr>)"

definition random_random :: "'f rng \<Rightarrow> 'f \<times> 'f rng" where
  "random_random r = (random_draws r (random_pos r), r\<lparr>random_pos := random_pos r + 1\<rparr>)"

definition api_records :: "('f, 'd) builtins \<Rightarrow> 'f row list" where
  "api_records B =
     [[''source'' \<mapsto> PStr ''api'', ''order_id'' \<mapsto> PStr ''API-001'',
       ''amount'' \<mapsto> PFloat (float_const B 150)],
      [''source'' \<mapsto> PStr ''api'', ''order_id'' \<mapsto> PStr ''API-002'',
       ''amount'' \<mapsto> PFloat (float_const B (151 / 2))]]"

text \<open>The retry loop of \<open>extract_from_api\<close> over the attempts still to make.\<close>

fun api_attempts :: "('f, 'd) builtins \<Rightarrow> 'f rng \<Rightarrow> nat list \<Rightarrow> 'f row list \<times> 'f rng" where
  "api_attempts B r [] = ([], r)"
| "api_attempts B r (attempt # attempts) =
     (case random_choice r [200, 200, 503, 500, 200 :: nat] of
        (simulated_status, r') \<Rightarrow>
          if simulated_status = 200 then (api_records B, r')
          else api_attempts B r' attempts)"

definition extract_from_api :: "('f, 'd) builtins \<Rightarrow> 'f rng \<Rightarrow> nat \<Rightarrow> 'f row list \<times> 'f rng" where
  "extract_from_api B r max_retries = api_attempts B r [1 ..< max_retries + 1]"

text \<open>
  \<open>run_extraction\<close> returns the log, the generator and either the dictionary of results or
  the exception that leaves it: the \<open>RuntimeError\<close> it raises itself, or an exception of
  \<open>extract_json\<close>, after which the API is not called.
\<close>

definition run_extraction ::
  "('f, 'd) builtins \<Rightarrow> 'f row list option \<Rightarrow> 'f json_file option \<Rightarrow> 'f rng \<Rightarrow>
   event list \<times> 'f rng \<times> (error + (string \<rightharpoonup> 'f item list))" where
  "run_extraction B csv_path json_path r =
     (let sales_data = map Row (extract_csv csv_path) in
      case extract_json json_path ''products'' of
        Inl e \<Rightarrow> ([ExtractionStarted], r, Inl e)
      | Inr product_catalog \<Rightarrow>
         (let (api_rows, r') = extract_from_api B r 3;
              api_data = map Row api_rows;
              results = [''sales_data'' \<mapsto> sales_data, ''product_catalog'' \<mapsto> product_catalog,
                         ''api_data'' \<mapsto> api_data];
              total_records = length sales_data + length product_catalog + length api_data;
              log1 = [ExtractionStarted,
                      ExtractionComplete total_records (length sales_data)
                        (length product_catalog) (length api_data)]
          in if sales_data = [] then (log1 @ [PrimarySourceEmpty], r', Inl RuntimeError)
             else (log1, r', Inr results)))"

section \<open>etl/loader.py\<close>

text \<open>
  The table \<open>clean_sales\<close> is the list of its rows in insertion order, each row the list
  of the thirteen bound values with the primary key \<open>order_id\<close> first. A connection holds
  the committed table and the table as the open transaction sees it.
\<close>

type_synonym 'f table = "'f pyval list list"

record 'f connection =
  committed :: "'f table"
  working :: "'f table"

definition commit :: "'f connection \<Rightarrow> 'f connection" where
  "commit conn = conn\<lparr>committed := working conn\<rparr>"

definition rollback :: "'f connection \<Rightarrow> 'f connection" where
  "rollback conn = conn\<lparr>working := committed conn\<rparr>"

definition BATCH_SIZE :: nat where
  "BATCH_SIZE = 10"

text \<open>
  \<open>create_database\<close>: making the directory, connecting or creating the table can fail, and
  the error is raised again; otherwise the connection sees the table on disk.
\<close>

definition create_database :: "error option \<Rightarrow> 'f table \<Rightarrow> error + 'f connection" where
  "create_database open_error disk =
     (case open_error of
        Some e \<Rightarrow> Inl e
      | None \<Rightarrow> Inr \<lparr>committed = disk, working = disk\<rparr>)"

text \<open>
  Binding a parameter: a list or a dictionary is not a supported type, and an int must fit
  in 64 bits.
\<close>

fun bind_error :: "'f pyval \<Rightarrow> error option" where
  "bind_error (PList xs) = Some InterfaceError"
| "bind_error (PDict kvs) = Some InterfaceError"
| "bind_error (PInt i) =
     (if - (2 ^ 63) \<le> i \<and> i < 2 ^ 63 then None else Some OverflowError)"
| "bind_error _ = None"

text \<open>
  \<open>INSERT OR IGNORE\<close>: a row whose key is already in the table is ignored (\<open>rowcount\<close> 0),
  any other row is added (\<open>rowcount\<close> 1). A \<open>NULL\<close> key never conflicts. With \<open>OR IGNORE\<close>
  the statement raises no \<open>IntegrityError\<close>. Keys are compared as they are bound; the
  order ids of the pipeline are strings, for which this is the comparison of the column.
\<close>

definition execute_insert :: "'f table \<Rightarrow> 'f pyval list \<Rightarrow> error + (nat \<times> 'f table)" where
  "execute_insert t params =
     (case List.find (\<lambda>e. e \<noteq> None) (map bind_error params) of
        Some (Some e) \<Rightarrow> Inl e
      | _ \<Rightarrow>
          if hd params \<noteq> PNone \<and> hd params \<in> set (map hd t) then Inr (0, t)
          else Inr (1, t @ [params]))"

text \<open>
  The tuple of values \<open>load_batch\<close> binds for one row: nine fields are indexed and raise
  \<open>KeyError\<close> when absent, three have a default, and the flags are passed through \<open>str\<close>.
\<close>

definition get_default :: "'f row \<Rightarrow> string \<Rightarrow> 'f pyval \<Rightarrow> 'f pyval" where
  "get_default row k d = (case row k of None \<Rightarrow> d | Some v \<Rightarrow> v)"

definition insert_params :: "('f, 'd) builtins \<Rightarrow> 'f row \<Rightarrow> error + 'f pyval list" where
  "insert_params B row =
     (case (row ''order_id'', row ''customer_name'', row ''email'', row ''product_id'',
            row ''quantity'', row ''unit_price'', row ''total'', row ''order_date'',
            row ''payment_method'') of
        (Some order_id, Some customer_name, Some email, Some product_id, Some quantity,
         Some unit_price, Some total_value, Some order_date, Some payment_method) \<Rightarrow>
          Inr [order_id, customer_name, email, product_id,
               get_default row ''product_name'' (PStr ''UNKNOWN''),
               get_default row ''category'' (PStr ''UNKNOWN''),
               quantity, unit_price, total_value, order_date, payment_method,
               get_default row ''current_stock'' (PInt (- 1)),
               PStr (str_of B (get_default row ''anomaly_flags'' (PList [])))]
      | _ \<Rightarrow> Inl KeyError)"

text \<open>
  The loop of \<open>load_batch\<close>. An \<open>IntegrityError\<close> is caught and counted as a skipped row;
  any other exception leaves the function.
\<close>

fun load_rows ::
  "('f, 'd) builtins \<Rightarrow> 'f row list \<Rightarrow> nat \<times> nat \<times> 'f table \<Rightarrow> error + (nat \<times> nat \<times> 'f table)" where
  "load_rows B [] st = Inr st"
| "load_rows B (row # rows) (inserted, skipped, t) =
     (case insert_params B row of
        Inl e \<Rightarrow> Inl e
      | Inr params \<Rightarrow>
         (case execute_insert t params of
            Inl e \<Rightarrow> if e = IntegrityError then load_rows B rows (inserted, skipped + 1, t)
                     else Inl e
          | Inr (rowcount, t') \<Rightarrow>
              if rowcount > 0 then load_rows B rows (inserted + 1, skipped, t')
              else load_rows B rows (inserted, skipped + 1, t')))"

definition load_batch ::
  "('f, 'd) builtins \<Rightarrow> 'f connection \<Rightarrow> 'f row list \<Rightarrow> nat \<Rightarrow>
   error + (nat \<times> nat \<times> 'f connection)" where
  "load_batch B conn batch batch_num =
     (case load_rows B batch (0, 0, working conn) of
        Inl e \<Rightarrow> Inl e
      | Inr (inserted, skipped, t) \<Rightarrow> Inr (inserted, skipped, conn\<lparr>working := t\<rparr>))"

text \<open>
  \<open>batch_num == total_batches and random.random() < 0.3\<close>: the generator is used only
  when the first test holds.
\<close>

definition simulate_connection_issue ::
  "('f, 'd) builtins \<Rightarrow> nat \<Rightarrow> nat \<Rightarrow> 'f rng \<Rightarrow> bool \<times> 'f rng" where
  "simulate_connection_issue B batch_num total_batches r =
     (if batch_num = total_batches
      then (case random_random r of (x, r') \<Rightarrow> (float_lt B x (float_const B (3 / 10)), r'))
      else (False, r))"

text \<open>
  \<open>[cleaned_rows[i:i + BATCH_SIZE] for i in range(0, len(cleaned_rows), BATCH_SIZE)]\<close>
\<close>

definition range_step :: "nat \<Rightarrow> nat \<Rightarrow> nat list" where
  "range_step n step = map (\<lambda>j. j * step) [0 ..< (n + step - 1) div step]"

definition split_batches :: "'a list \<Rightarrow> 'a list list" where
  "split_batches cleaned_rows =
     map (\<lambda>i. take BATCH_SIZE (drop i cleaned_rows)) (range_step (length cleaned_rows) BATCH_SIZE)"

definition enumerate1 :: "'a list \<Rightarrow> (nat \<times> 'a) list" where
  "enumerate1 xs = zip [1 ..< length xs + 1] xs"

text \<open>
  The state of the loop over the batches, and the loop. A connection failure rolls back and
  leaves the loop (\<open>break\<close>); an exception of \<open>load_batch\<close> leaves \<open>run_loading\<close> with the
  batch uncommitted.
\<close>

record 'f loader_state =
  conn :: "'f connection"
  total_inserted :: nat
  total_skipped :: nat
  gen :: "'f rng"
  events :: "event list"

fun batch_loop ::
  "('f, 'd) builtins \<Rightarrow> nat \<Rightarrow> (nat \<times> 'f row list) list \<Rightarrow> 'f loader_state \<Rightarrow>
   'f loader_state \<times> error option" where
  "batch_loop B total_batches [] st = (st, None)"
| "batch_loop B total_batches ((batch_num, batch) # rest) st =
     (case simulate_connection_issue B batch_num total_batches (gen st) of
        (True, r') \<Rightarrow>
          (st\<lparr>conn := rollback (conn st), gen := r',
              events := events st @ [BatchProcessing batch_num total_batches,
                 ConnectionLost batch_num total_batches (length batch),
                 RollbackSuccessful (length batch) batch_num (total_inserted st)]\<rparr>,
           None)
      | (False, r') \<Rightarrow>
          (case load_batch B (conn st) batch batch_num of
             Inl e \<Rightarrow>
               (st\<lparr>gen := r',
                   events := events st @ [BatchProcessing batch_num total_batches]\<rparr>,
                Some e)
           | Inr (inserted, skipped, conn') \<Rightarrow>
               batch_loop B total_batches rest
                 (st\<lparr>conn := commit conn',
                     total_inserted := total_inserted st + inserted,
                     total_skipped := total_skipped st + skipped,
                     gen := r',
                     events := events st @ [BatchProcessing batch_num total_batches,
                                            BatchCommitted batch_num]\<rparr>)))"

text \<open>
  \<open>run_loading\<close> returns the log, the table left on disk, the generator, and either the
  pair \<open>(total_inserted, total_skipped)\<close> or the exception it raises. What is on disk is
  what was committed: an open transaction is lost with its connection.
\<close>

definition run_loading ::
  "('f, 'd) builtins \<Rightarrow> 'f row list \<Rightarrow> error option \<Rightarrow> 'f table \<Rightarrow> 'f rng \<Rightarrow>
   event list \<times> 'f table \<times> 'f rng \<times> (error + (nat \<times> nat))" where
  "run_loading B cleaned_rows open_error disk r =
     (case create_database open_error disk of
        Inl e \<Rightarrow> ([LoadingStarted], disk, r, Inl e)
      | Inr c \<Rightarrow>
         (let batches = split_batches cleaned_rows;
              total_batches = length batches
          in case batch_loop B total_batches (enumerate1 batches)
                    \<lparr>conn = c, total_inserted = 0, total_skipped = 0, gen = r,
                     events = [LoadingStarted]\<rparr> of
               (st, Some e) \<Rightarrow> (events st, committed (conn st), gen st, Inl e)
             | (st, None) \<Rightarrow>
                 (events st @ [LoadingComplete (total_inserted st) (total_skipped st)],
                  committed (conn st), gen st,
                  Inr (total_inserted st, total_skipped st))))"

section \<open>main.py\<close>

record stats =
  extracted :: nat
  transformed :: nat
  loaded :: nat
  skipped :: nat
  errors :: nat
  phase_failed :: "string option"

text \<open>What a run reads from its environment.\<close>

record 'f environment =
  csv_file :: "'f row list option"
  json_file :: "'f json_file option"
  generator :: "'f rng"
  db_open_error :: "error option"
  db_table :: "'f table"

definition initial_stats :: stats where
  "initial_stats =
     \<lparr>extracted = 0, transformed = 0, loaded = 0, skipped = 0, errors = 0, phase_failed = None\<rparr>"

text \<open>\<open>run_pipeline\<close> returns the stats; the model adds the log and the table left on disk.\<close>

definition run_pipeline ::
  "('f, 'd) builtins \<Rightarrow> 'f environment \<Rightarrow> stats \<times> event list \<times> 'f table" where
  "run_pipeline B env =
     (case run_extraction B (csv_file env) (json_file env) (generator env) of
        (log1, r1, Inl e) \<Rightarrow>
          (initial_stats\<lparr>phase_failed := Some ''extraction'', errors := errors initial_stats + 1\<rparr>,
           PipelineStarted # log1 @ [ExtractionFailed], db_table env)
      | (log1, r1, Inr extracted_data) \<Rightarrow>
     (case extracted_data ''sales_data'' of
        None \<Rightarrow>
          (initial_stats\<lparr>phase_failed := Some ''extraction'', errors := errors initial_stats + 1\<rparr>,
           PipelineStarted # log1 @ [ExtractionFailed], db_table env)
      | Some sales_data \<Rightarrow>
     (let stats1 = initial_stats\<lparr>extracted := length sales_data\<rparr> in
      case run_transformation B extracted_data of
        (log2, Inl e) \<Rightarrow>
          (stats1\<lparr>phase_failed := Some ''transformation'', errors := errors stats1 + 1\<rparr>,
           PipelineStarted # log1 @ log2 @ [TransformationFailed], db_table env)
      | (log2, Inr cleaned_rows) \<Rightarrow>
     (let stats2 = stats1\<lparr>transformed := length cleaned_rows\<rparr> in
      case run_loading B cleaned_rows (db_open_error env) (db_table env) r1 of
        (log3, disk, r3, Inl e) \<Rightarrow>
          (stats2\<lparr>phase_failed := Some ''loading'', errors := errors stats2 + 1\<rparr>,
           PipelineStarted # log1 @ log2 @ log3 @ [LoadingFailed], disk)
      | (log3, disk, r3, Inr (inserted, skipped_count)) \<Rightarrow>
          (stats2\<lparr>loaded := inserted, skipped := skipped_count\<rparr>,
           PipelineStarted # log1 @ log2 @ log3 @ [PipelineCompleted], disk)))))"

section \<open>Acceptance by validate\_row, and sample data\<close>

text \<open>
  What it means for \<open>validate_row\<close> to accept a row, written out: both identifiers are
  present and true, the quantity parses to \<open>q\<close>, the price reads as \<open>pv\<close>, the date
  parses to \<open>d\<close> and the product of the cleaned quantity and price is \<open>x\<close>; then the
  cleaned row and the issue list are as given.
\<close>

definition accepted_by ::
  "('f, 'd) builtins \<Rightarrow> 'f row \<Rightarrow> 'f row \<Rightarrow> string list \<Rightarrow> int \<Rightarrow> 'f \<Rightarrow> 'd \<Rightarrow> 'f \<Rightarrow> bool" where
  "accepted_by B row c iss q pv d x \<longleftrightarrow>
     get_truthy B row ''order_id'' \<and> get_truthy B row ''product_id'' \<and>
     (\<exists>qv. row ''quantity'' = Some qv \<and> py_int B qv = Inr q) \<and>
     read_price B row = Inr pv \<and>
     (\<exists>dv. row ''order_date'' = Some dv \<and> try_formats B dv date_formats = Some d) \<and>
     int_times_float B (if q \<le> 0 then 1 else q)
        (if float_lt B pv (float_const B 0) then float_const B 0 else pv) = Inr x \<and>
     c = (fst (validate_email B row))
           (''quantity'' \<mapsto> PInt (if q \<le> 0 then 1 else q),
            ''unit_price'' \<mapsto> PFloat (if float_lt B pv (float_const B 0) then float_const B 0 else pv),
            ''order_date'' \<mapsto> PStr (strftime B d ''%Y-%m-%d''),
            ''total'' \<mapsto> PFloat (round2 B x)) \<and>
     iss = snd (validate_email B row)
           @ (if q \<le> 0 then [''invalid_quantity''] else [])
           @ (if float_lt B pv (float_const B 0) then [''negative_price'']
              else if float_eq B pv (float_const B 0) then [''zero_price''] else [])"

text \<open>
  An interpretation of the builtins for the examples: exact rational arithmetic in place of
  doubles, and the results of \<open>int\<close>, \<open>float\<close>, \<open>strptime\<close>, \<open>strftime\<close> and \<open>str\<close> on
  the few values the examples use.
\<close>

definition sample_builtins :: "(rat, nat \<times> nat \<times> nat) builtins" where
  "sample_builtins =
     \<lparr> int_of_str = (\<lambda>s. if s = ''2'' then Some 2 else if s = ''0'' then Some 0
                          else if s = ''25'' then Some 25 else None),
       int_of_float = (\<lambda>x. Inr (if 0 \<le> x then \<lfloor>x\<rfloor> else \<lceil>x\<rceil>)),
       float_of_str = (\<lambda>s. if s = ''19.99'' then Some (1999 / 100) else if s = ''0'' then Some 0
                            else if s = ''-5.00'' then Some (- 5) else None),
       float_of_int = (\<lambda>i. Some (of_int i)),
       float_const = (\<lambda>c. c),
       float_lt = (\<lambda>x y. x < y),
       float_eq = (\<lambda>x y. x = y),
       float_mul = (\<lambda>x y. x * y),
       round2 = (\<lambda>x. of_int (round (x * 100)) / 100),
       strptime = (\<lambda>s fmt. if s = ''2024-01-15'' \<and> fmt = ''%Y-%m-%d'' then Some (2024, 1, 15)
                            else if s = ''15/01/2024'' \<and> fmt = ''%d/%m/%Y'' then Some (2024, 1, 15)
                            else None),
       strftime = (\<lambda>d fmt. if d = (2024, 1, 15) \<and> fmt = ''%Y-%m-%d'' then ''2024-01-15'' else []),
       str_of = (\<lambda>v. case v of PList [] \<Rightarrow> ''[]'' | PStr s \<Rightarrow> s | _ \<Rightarrow> []) \<rparr>"

definition sample_row :: "rat row" where
  "sample_row = [''order_id'' \<mapsto> PStr ''1001'', ''customer_name'' \<mapsto> PStr ''Ann'',
     ''email'' \<mapsto> PStr ''ann@example.com'', ''product_id'' \<mapsto> PStr ''P1'',
     ''quantity'' \<mapsto> PStr ''2'', ''unit_price'' \<mapsto> PStr ''19.99'',
     ''order_date'' \<mapsto> PStr ''2024-01-15'', ''payment_method'' \<mapsto> PStr ''card'']"

text \<open>
  A generator whose every \<open>random.choice\<close> picks the first element and whose every
  \<open>random.random()\<close> is one half, a catalog entry, the JSON document whose \<open>products\<close>
  are that one entry, and an environment with a CSV file of the given rows, that document
  and an empty table.
\<close>

definition sample_rng :: "rat rng" where
  "sample_rng = \<lparr>choice_draws = (\<lambda>n. 0), choice_pos = 0,
                  random_draws = (\<lambda>n. 1 / 2), random_pos = 0\<rparr>"

definition sample_product :: "rat row" where
  "sample_product = [''product_id'' \<mapsto> PStr ''P1'', ''name'' \<mapsto> PStr ''Widget'',
     ''category'' \<mapsto> PStr ''Tools'', ''stock'' \<mapsto> PInt 25]"

definition sample_document :: "rat pyval" where
  "sample_document =
     PDict [(''products'',
             PList [PDict [(''stock'', PInt 25), (''category'', PStr ''Tools''),
                           (''name'', PStr ''Widget''), (''product_id'', PStr ''P1'')]])]"

definition sample_env :: "rat row list \<Rightarrow> rat environment" where
  "sample_env rows =
     \<lparr>csv_file = Some rows, json_file = Some (JsonDocument sample_document),
      generator = sample_rng, db_open_error = None, db_table = []\<rparr>"

text \<open>
  The rows of a list that are the first with their key, among the keys not in \<open>S\<close>: the
  loop of \<open>check_duplicates\<close> without its bookkeeping, used to describe its result.
\<close>

fun first_seen :: "('a \<Rightarrow> 'k) \<Rightarrow> 'k set \<Rightarrow> 'a list \<Rightarrow> 'a list" where
  "first_seen key S [] = []"
| "first_seen key S (x # xs) =
     (if key x \<in> S then first_seen key S xs else x # first_seen key (insert (key x) S) xs)"

text \<open>
  How \<open>enrich_with_products\<close> relates one input row to its output row, given the lookup:
  the row has a \<open>product_id\<close>; if the lookup has no entry for it the three fields are the
  sentinels, and otherwise they are the entry's \<open>name\<close>, \<open>category\<close> and \<open>stock\<close>.
\<close>

definition enriched_from :: "('f pyval \<rightharpoonup> 'f row) \<Rightarrow> 'f row \<Rightarrow> 'f row \<Rightarrow> bool" where
  "enriched_from lookup row row' \<longleftrightarrow>
     (\<exists>pid. row ''product_id'' = Some pid \<and>
        (case lookup pid of
           None \<Rightarrow>
             row' = row(''product_name'' \<mapsto> PStr ''UNKNOWN'', ''category'' \<mapsto> PStr ''UNKNOWN'',
                        ''current_stock'' \<mapsto> PInt (- 1))
         | Some product \<Rightarrow>
             (\<exists>name category stock.
                product ''name'' = Some name \<and> product ''category'' = Some category \<and>
                product ''stock'' = Some stock \<and>
                row' = row(''product_name'' \<mapsto> name, ''category'' \<mapsto> category,
                           ''current_stock'' \<mapsto> stock))))"

text \<open>
  Loading a list of batches with no connection failure: each batch is loaded and committed
  in turn, and the counts add up. This is what the loop of \<open>run_loading\<close> does on the
  batches before a failure, and it is used to say so.
\<close>

fun commit_batches ::
  "('f, 'd) builtins \<Rightarrow> 'f row list list \<Rightarrow> nat \<times> nat \<times> 'f connection \<Rightarrow>
   error + (nat \<times> nat \<times> 'f connection)" where
  "commit_batches B [] st = Inr st"
| "commit_batches B (batch # batches) (n_inserted, n_skipped, c) =
     (case load_batch B c batch 0 of
        Inl e \<Rightarrow> Inl e
      | Inr (i, s, c') \<Rightarrow> commit_batches B batches (n_inserted + i, n_skipped + s, commit c'))"

text \<open>The batch numbers a log reports as started, and as committed, in the order logged.\<close>

fun attempted :: "event list \<Rightarrow> nat list" where
  "attempted [] = []"
| "attempted (BatchProcessing j n # es) = j # attempted es"
| "attempted (e # es) = attempted es"

fun committed_batches :: "event list \<Rightarrow> nat list" where
  "committed_batches [] = []"
| "committed_batches (BatchCommitted j # es) = j # committed_batches es"
| "committed_batches (e # es) = committed_batches es"

text \<open>The log lines of \<open>m\<close> batches loaded and committed in turn, starting at batch \<open>i\<close>.\<close>

primrec committed_events :: "nat \<Rightarrow> nat \<Rightarrow> nat \<Rightarrow> event list" where
  "committed_events total_batches i 0 = []"
| "committed_events total_batches i (Suc m) =
     [BatchProcessing i total_batches, BatchCommitted i] @
     committed_events total_batches (Suc i) m"

text \<open>
  A clean row with a given order id, ready for the loader, and a generator whose every
  \<open>random.random()\<close> is one tenth, so that the simulated connection failure fires.
\<close>

definition loader_row :: "string \<Rightarrow> rat row" where
  "loader_row oid =
     [''order_id'' \<mapsto> PStr oid, ''customer_name'' \<mapsto> PStr ''Ann'',
      ''email'' \<mapsto> PStr ''ann@example.com'', ''product_id'' \<mapsto> PStr ''P1'',
      ''quantity'' \<mapsto> PInt 2, ''unit_price'' \<mapsto> PFloat (1999 / 100),
      ''total'' \<mapsto> PFloat (1999 / 50), ''order_date'' \<mapsto> PStr ''2024-01-15'',
      ''payment_method'' \<mapsto> PStr ''card'']"

definition loader_params :: "string \<Rightarrow> rat pyval list" where
  "loader_params oid =
     [PStr oid, PStr ''Ann'', PStr ''ann@example.com'', PStr ''P1'', PStr ''UNKNOWN'',
      PStr ''UNKNOWN'', PInt 2, PFloat (1999 / 100), PFloat (1999 / 50), PStr ''2024-01-15'',
      PStr ''card'', PInt (- 1), PStr ''[]'']"

definition failing_rng :: "rat rng" where
  "failing_rng = \<lparr>choice_draws = (\<lambda>n. 0), choice_pos = 0,
                   random_draws = (\<lambda>n. 1 / 10), random_pos = 0\<rparr>"

text \<open>The phases a log reports as started, in the order logged.\<close>

definition phases :: "event list \<Rightarrow> event list" where
  "phases evs =
     filter (\<lambda>e. e = ExtractionStarted \<or> e = TransformationStarted \<or> e = LoadingStarted) evs"

section \<open>Properties of validate\_row\<close>

lemma validate_quantity_Continue:
  "validate_quantity B row (c0, i0) = Continue (c, iss) \<longleftrightarrow>
     (\<exists>v q. row ''quantity'' = Some v \<and> py_int B v = Inr q \<and>
        c = c0(''quantity'' \<mapsto> PInt (if q \<le> 0 then 1 else q)) \<and>
        iss = i0 @ (if q \<le> 0 then [''invalid_quantity''] else []))"
  by (auto simp: validate_quantity_def split: option.splits sum.splits)

lemma validate_unit_price_Continue:
  "validate_unit_price B row (c0, i0) = Continue (c, iss) \<longleftrightarrow>
     (\<exists>p. read_price B row = Inr p \<and>
        c = c0(''unit_price'' \<mapsto>
               PFloat (if float_lt B p (float_const B 0) then float_const B 0 else p)) \<and>
        iss = i0 @ (if float_lt B p (float_const B 0) then [''negative_price'']
                    else if float_eq B p (float_const B 0) then [''zero_price''] else []))"
  by (auto simp: validate_unit_price_def split: sum.splits)

lemma validate_order_date_Continue:
  "validate_order_date B row (c0, i0) = Continue (c, iss) \<longleftrightarrow>
     (\<exists>v d. row ''order_date'' = Some v \<and> try_formats B v date_formats = Some d \<and>
        c = c0(''order_date'' \<mapsto> PStr (strftime B d ''%Y-%m-%d'')) \<and> iss = i0)"
  by (auto simp: validate_order_date_def split: option.splits)

lemma calculate_total_Continue:
  "calculate_total B (c0, i0) = Continue (c, iss) \<longleftrightarrow>
     (\<exists>q p x. c0 ''quantity'' = Some (PInt q) \<and> c0 ''unit_price'' = Some (PFloat p) \<and>
        int_times_float B q p = Inr x \<and>
        c = c0(''total'' \<mapsto> PFloat (round2 B x)) \<and> iss = i0)"
  by (auto simp: calculate_total_def split: option.splits pyval.splits sum.splits)

lemma and_then_Continue:
  "and_then x f = Continue b \<longleftrightarrow> (\<exists>a. x = Continue a \<and> f a = Continue b)"
  by (cases x) (simp_all add: and_then_def)

lemma validate_row_accepted_iff:
  "validate_row B row n = Inr (True, Some c, iss) \<longleftrightarrow> (\<exists>q pv d x. accepted_by B row c iss q pv d x)"
proof
  assume assms: "validate_row B row n = Inr (True, Some c, iss)"
  obtain c0 i0 where e: "validate_email B row = (c0, i0)"
    by (cases "validate_email B row")
  from assms have t: "get_truthy B row ''order_id''" "get_truthy B row ''product_id''"
    by (auto simp: validate_row_def split: if_splits)
  with assms e have "and_then (and_then (and_then
                 (validate_quantity B row (c0, i0))
                 (validate_unit_price B row))
                 (validate_order_date B row))
                 (calculate_total B) = Continue (c, iss)"
    by (auto simp: validate_row_def split: outcome.splits)
  then obtain s1 s2 s3 where
    1: "validate_quantity B row (c0, i0) = Continue s1" and
    2: "validate_unit_price B row s1 = Continue s2" and
    3: "validate_order_date B row s2 = Continue s3" and
    4: "calculate_total B s3 = Continue (c, iss)"
    unfolding and_then_Continue by blast
  obtain c1 i1 c2 i2 c3 i3 where s: "s1 = (c1, i1)" "s2 = (c2, i2)" "s3 = (c3, i3)"
    by (cases s1, cases s2, cases s3) blast
  from 1 2 3 4 show "\<exists>q pv d x. accepted_by B row c iss q pv d x"
    unfolding s validate_quantity_Continue validate_unit_price_Continue
      validate_order_date_Continue calculate_total_Continue accepted_by_def
    using t e by (fastforce simp: fun_upd_def)
next
  assume "\<exists>q pv d x. accepted_by B row c iss q pv d x"
  then obtain q pv d x where a: "accepted_by B row c iss q pv d x" by blast
  obtain c0 i0 where e: "validate_email B row = (c0, i0)"
    by (cases "validate_email B row")
  let ?q = "if q \<le> 0 then 1 else q"
  let ?p = "if float_lt B pv (float_const B 0) then float_const B 0 else pv"
  let ?i1 = "i0 @ (if q \<le> 0 then [''invalid_quantity''] else [])"
  let ?i2 = "?i1 @ (if float_lt B pv (float_const B 0) then [''negative_price'']
              else if float_eq B pv (float_const B 0) then [''zero_price''] else [])"
  have 1: "validate_quantity B row (c0, i0) = Continue (c0(''quantity'' \<mapsto> PInt ?q), ?i1)"
    using a unfolding validate_quantity_Continue accepted_by_def by blast
  have 2: "validate_unit_price B row (c0(''quantity'' \<mapsto> PInt ?q), ?i1)
             = Continue (c0(''quantity'' \<mapsto> PInt ?q, ''unit_price'' \<mapsto> PFloat ?p), ?i2)"
    using a unfolding validate_unit_price_Continue accepted_by_def by blast
  have 3: "validate_order_date B row (c0(''quantity'' \<mapsto> PInt ?q, ''unit_price'' \<mapsto> PFloat ?p), ?i2)
             = Continue (c0(''quantity'' \<mapsto> PInt ?q, ''unit_price'' \<mapsto> PFloat ?p,
                   ''order_date'' \<mapsto> PStr (strftime B d ''%Y-%m-%d'')), ?i2)"
    using a unfolding validate_order_date_Continue accepted_by_def by blast
  have 4: "calculate_total B (c0(''quantity'' \<mapsto> PInt ?q, ''unit_price'' \<mapsto> PFloat ?p,
                   ''order_date'' \<mapsto> PStr (strftime B d ''%Y-%m-%d'')), ?i2)
             = Continue (c, iss)"
    unfolding calculate_total_Continue using a e by (simp add: accepted_by_def)
  from a have t: "get_truthy B row ''order_id''" "get_truthy B row ''product_id''"
    by (simp_all add: accepted_by_def)
  show "validate_row B row n = Inr (True, Some c, iss)"
    using t e 1 2 3 4 by (simp add: validate_row_def and_then_def)
qed

lemma validate_email_ignores_total:
  "validate_email B (row(''total'' := t)) =
     ((fst (validate_email B row))(''total'' := t), snd (validate_email B row))"
  by (auto simp: validate_email_def get_truthy_def)

lemma accepted_by_ignores_total:
  "accepted_by B (row(''total'' := t)) c iss q pv d x = accepted_by B row c iss q pv d x"
  by (simp add: accepted_by_def validate_email_ignores_total get_truthy_def read_price_def)

lemmas validate_defs = validate_row_def get_truthy_def validate_email_def
    validate_quantity_def validate_unit_price_def validate_order_date_def calculate_total_def and_then_def
    read_price_def date_formats_def int_times_float_def caught_def

text \<open>
  Claim C5. Every row that \<open>validate_row\<close> accepts carries an int quantity \<open>q\<close> and a float
  unit price \<open>p\<close>, and its \<open>total\<close> is \<open>round(q * p, 2)\<close> computed from these two cleaned
  fields. A \<open>total\<close> in the input has no influence: replacing or removing it gives the same
  result.
\<close>

theorem total_is_derived:
  assumes "validate_row B row n = Inr (True, Some c, iss)"
  shows "\<exists>q p x. c ''quantity'' = Some (PInt q) \<and> c ''unit_price'' = Some (PFloat p) \<and>
           int_times_float B q p = Inr x \<and> c ''total'' = Some (PFloat (round2 B x)) \<and>
           validate_row B (row(''total'' := t)) n = Inr (True, Some c, iss)"
proof -
  from assms obtain q pv d x where a: "accepted_by B row c iss q pv d x"
    unfolding validate_row_accepted_iff by blast
  then have "accepted_by B (row(''total'' := t)) c iss q pv d x"
    by (simp only: accepted_by_ignores_total)
  then have "validate_row B (row(''total'' := t)) n = Inr (True, Some c, iss)"
    unfolding validate_row_accepted_iff by blast
  moreover from a have "c ''quantity'' = Some (PInt (if q \<le> 0 then 1 else q))"
    "c ''unit_price'' = Some (PFloat (if float_lt B pv (float_const B 0) then float_const B 0 else pv))"
    "c ''total'' = Some (PFloat (round2 B x))"
    "int_times_float B (if q \<le> 0 then 1 else q)
        (if float_lt B pv (float_const B 0) then float_const B 0 else pv) = Inr x"
    by (simp_all add: accepted_by_def)
  ultimately show ?thesis by blast
qed

lemma sample_row_accepted:
  "validate_row sample_builtins sample_row 1 =
     Inr (True, Some (sample_row(''quantity'' \<mapsto> PInt 2, ''unit_price'' \<mapsto> PFloat (1999 / 100),
             ''order_date'' \<mapsto> PStr ''2024-01-15'', ''total'' \<mapsto> PFloat (1999 / 50))), [])"
  by (simp add: validate_defs sample_builtins_def sample_row_def)

theorem total_is_derived_witness:
  "\<exists>c. validate_row sample_builtins sample_row 1 = Inr (True, Some c, []) \<and>
       c ''total'' = Some (PFloat (1999 / 50)) \<and>
       validate_row sample_builtins (sample_row(''total'' \<mapsto> PStr ''999'')) 1 = Inr (True, Some c, [])"
proof -
  from total_is_derived [OF sample_row_accepted, of "Some (PStr ''999'')"]
  have "validate_row sample_builtins (sample_row(''total'' \<mapsto> PStr ''999'')) 1 =
     Inr (True, Some (sample_row(''quantity'' \<mapsto> PInt 2, ''unit_price'' \<mapsto> PFloat (1999 / 100),
             ''order_date'' \<mapsto> PStr ''2024-01-15'', ''total'' \<mapsto> PFloat (1999 / 50))), [])"
    by blast
  with sample_row_accepted show ?thesis by simp
qed

text \<open>
  Claim C10. An accepted row keeps every key of the input row, and every key other than
  \<open>email\<close>, \<open>quantity\<close>, \<open>unit_price\<close>, \<open>order_date\<close> and \<open>total\<close> keeps its input value;
  in particular \<open>customer_name\<close> and \<open>payment_method\<close> pass through unchanged. When the
  input row has these two fields, the cleaned row has all nine fields that \<open>load_batch\<close>
  indexes, so building the tuple of the insert raises no \<open>KeyError\<close>.
\<close>

theorem validate_row_frame:
  assumes "validate_row B row n = Inr (True, Some c, iss)"
  shows "dom row \<subseteq> dom c \<and>
         (\<forall>k. k \<notin> {''email'', ''quantity'', ''unit_price'', ''order_date'', ''total''}
               \<longrightarrow> c k = row k) \<and>
         c ''customer_name'' = row ''customer_name'' \<and>
         c ''payment_method'' = row ''payment_method'' \<and>
         (''customer_name'' \<in> dom row \<and> ''payment_method'' \<in> dom row
            \<longrightarrow> (\<exists>params. insert_params B c = Inr params))"
proof -
  from assms obtain q pv d x where a: "accepted_by B row c iss q pv d x"
    unfolding validate_row_accepted_iff by blast
  let ?c0 = "fst (validate_email B row)"
  have c0: "\<And>k. k \<noteq> ''email'' \<Longrightarrow> ?c0 k = row k" "dom row \<subseteq> dom ?c0"
    by (auto simp: validate_email_def)
  have e: "''email'' \<in> dom ?c0"
    by (auto simp: validate_email_def get_truthy_def split: option.splits)
  from a have c: "c = ?c0(''quantity'' \<mapsto> PInt (if q \<le> 0 then 1 else q),
            ''unit_price'' \<mapsto> PFloat (if float_lt B pv (float_const B 0) then float_const B 0 else pv),
            ''order_date'' \<mapsto> PStr (strftime B d ''%Y-%m-%d''),
            ''total'' \<mapsto> PFloat (round2 B x))"
    by (simp add: accepted_by_def)
  have 1: "dom row \<subseteq> dom c" using c0(2) unfolding c by auto
  have 2: "\<forall>k. k \<notin> {''email'', ''quantity'', ''unit_price'', ''order_date'', ''total''}
               \<longrightarrow> c k = row k"
    unfolding c using c0(1) by simp
  have 3: "c ''customer_name'' = row ''customer_name''" "c ''payment_method'' = row ''payment_method''"
    using 2 by simp_all
  from a have ids: "''order_id'' \<in> dom row" "''product_id'' \<in> dom row"
    by (auto simp: accepted_by_def get_truthy_def split: option.splits)
  have 4: "\<exists>params. insert_params B c = Inr params"
    if cp: "''customer_name'' \<in> dom row \<and> ''payment_method'' \<in> dom row"
  proof -
    have "c ''order_id'' = row ''order_id''" "c ''product_id'' = row ''product_id''"
      using 2 by simp_all
    moreover have "c ''email'' = ?c0 ''email''"
      unfolding c by simp
    ultimately obtain v1 v2 v3 v4 v5 where
      "c ''order_id'' = Some v1" "c ''customer_name'' = Some v2" "c ''email'' = Some v3"
      "c ''product_id'' = Some v4" "c ''payment_method'' = Some v5"
      using cp ids e 3 by (auto simp: dom_def)
    moreover have "c ''quantity'' \<noteq> None" "c ''unit_price'' \<noteq> None" "c ''total'' \<noteq> None"
      "c ''order_date'' \<noteq> None"
      unfolding c by simp_all
    ultimately show ?thesis
      by (auto simp: insert_params_def)
  qed
  from 1 2 3 4 show ?thesis by blast
qed

theorem validate_row_frame_witness:
  "\<exists>c. validate_row sample_builtins sample_row 1 = Inr (True, Some c, []) \<and>
       dom sample_row \<subseteq> dom c \<and>
       c ''customer_name'' = Some (PStr ''Ann'') \<and> c ''payment_method'' = Some (PStr ''card'') \<and>
       c ''order_id'' = Some (PStr ''1001'') \<and>
       (\<exists>params. insert_params sample_builtins c = Inr params)"
proof -
  have "''customer_name'' \<in> dom sample_row \<and> ''payment_method'' \<in> dom sample_row"
       "''order_id'' \<notin> {''email'', ''quantity'', ''unit_price'', ''order_date'', ''total''}"
    by (simp_all add: sample_row_def)
  with validate_row_frame [OF sample_row_accepted] sample_row_accepted
  show ?thesis by (simp add: sample_row_def)
qed

lemma validate_row_quantity_type:
  assumes "get_truthy B row ''order_id''" "get_truthy B row ''product_id''"
    "row ''quantity'' = Some v" "py_int B v = Inl e" "caught e"
  shows "validate_row B row n = Inr (False, None, [''invalid_quantity_type''])"
  using assms by (simp add: validate_row_def validate_quantity_def and_then_def validate_email_def)

text \<open>
  Claim C8. For a row that passes the two identifier checks and has a \<open>quantity\<close> field:
  when \<open>int\<close> raises \<open>ValueError\<close> or \<open>TypeError\<close> on it, the row is dropped with the
  single issue \<open>invalid_quantity_type\<close>; when \<open>int\<close> returns \<open>q\<close> and the row is accepted,
  the cleaned quantity is the int \<open>q\<close> if \<open>q\<close> is positive, and otherwise it is 1 and the
  issue list contains \<open>invalid_quantity\<close>.
\<close>

theorem quantity_rules:
  assumes "get_truthy B row ''order_id''" "get_truthy B row ''product_id''"
    and "row ''quantity'' = Some v"
  shows "(\<forall>e. py_int B v = Inl e \<and> (e = ValueError \<or> e = TypeError) \<longrightarrow>
            validate_row B row n = Inr (False, None, [''invalid_quantity_type''])) \<and>
         (\<forall>q c iss. py_int B v = Inr q \<and> validate_row B row n = Inr (True, Some c, iss) \<longrightarrow>
            (0 < q \<longrightarrow> c ''quantity'' = Some (PInt q)) \<and>
            (q \<le> 0 \<longrightarrow> c ''quantity'' = Some (PInt 1) \<and> ''invalid_quantity'' \<in> set iss))"
proof (intro conjI allI impI)
  fix e assume "py_int B v = Inl e \<and> (e = ValueError \<or> e = TypeError)"
  with assms show "validate_row B row n = Inr (False, None, [''invalid_quantity_type''])"
    using validate_row_quantity_type [of B row v e n] by (auto simp: caught_def)
next
  fix q c iss
  assume h: "py_int B v = Inr q \<and> validate_row B row n = Inr (True, Some c, iss)"
  then obtain q' pv d x where a: "accepted_by B row c iss q' pv d x"
    unfolding validate_row_accepted_iff by blast
  with h assms have q: "q' = q" by (auto simp: accepted_by_def)
  { assume "0 < q" with a q show "c ''quantity'' = Some (PInt q)"
      by (simp add: accepted_by_def) }
  { assume "q \<le> 0" with a q show "c ''quantity'' = Some (PInt 1)"
      by (simp add: accepted_by_def) }
  { assume "q \<le> 0" with a q show "''invalid_quantity'' \<in> set iss"
      by (simp add: accepted_by_def) }
qed

theorem quantity_rules_witness:
  "validate_row sample_builtins (sample_row(''quantity'' \<mapsto> PStr ''abc'')) 1 =
     Inr (False, None, [''invalid_quantity_type'']) \<and>
   (\<exists>c. validate_row sample_builtins (sample_row(''quantity'' \<mapsto> PStr ''0'')) 1 =
          Inr (True, Some c, [''invalid_quantity'']) \<and> c ''quantity'' = Some (PInt 1))"
proof -
  have 1: "get_truthy sample_builtins (sample_row(''quantity'' \<mapsto> PStr ''abc'')) ''order_id''"
    "get_truthy sample_builtins (sample_row(''quantity'' \<mapsto> PStr ''abc'')) ''product_id''"
    "(sample_row(''quantity'' \<mapsto> PStr ''abc'')) ''quantity'' = Some (PStr ''abc'')"
    "py_int sample_builtins (PStr ''abc'') = Inl ValueError"
    by (simp_all add: get_truthy_def sample_row_def sample_builtins_def)
  have 2: "get_truthy sample_builtins (sample_row(''quantity'' \<mapsto> PStr ''0'')) ''order_id''"
    "get_truthy sample_builtins (sample_row(''quantity'' \<mapsto> PStr ''0'')) ''product_id''"
    "(sample_row(''quantity'' \<mapsto> PStr ''0'')) ''quantity'' = Some (PStr ''0'')"
    "py_int sample_builtins (PStr ''0'') = Inr 0"
    by (simp_all add: get_truthy_def sample_row_def sample_builtins_def)
  have 3: "validate_row sample_builtins (sample_row(''quantity'' \<mapsto> PStr ''0'')) 1 =
     Inr (True, Some (sample_row(''quantity'' \<mapsto> PInt 1, ''unit_price'' \<mapsto> PFloat (1999 / 100),
             ''order_date'' \<mapsto> PStr ''2024-01-15'', ''total'' \<mapsto> PFloat (1999 / 100))),
          [''invalid_quantity''])"
    by (simp add: validate_defs sample_builtins_def sample_row_def)
  from quantity_rules [OF 1(1,2,3), of 1] 1(4)
  have "validate_row sample_builtins (sample_row(''quantity'' \<mapsto> PStr ''abc'')) 1 =
     Inr (False, None, [''invalid_quantity_type''])" by blast
  moreover from quantity_rules [OF 2(1,2,3), of 1] 2(4) 3
  have "(sample_row(''quantity'' \<mapsto> PInt 1, ''unit_price'' \<mapsto> PFloat (1999 / 100),
             ''order_date'' \<mapsto> PStr ''2024-01-15'', ''total'' \<mapsto> PFloat (1999 / 100))) ''quantity''
          = Some (PInt 1)" by simp
  ultimately show ?thesis using 3 by simp
qed

lemma validate_row_price_type:
  assumes "get_truthy B row ''order_id''" "get_truthy B row ''product_id''"
    "row ''quantity'' = Some qv" "py_int B qv = Inr q"
    "read_price B row = Inl e" "caught e"
  shows "validate_row B row n = Inr (False, None, [''invalid_price_type''])"
  using assms
  by (simp add: validate_row_def validate_quantity_def validate_unit_price_def and_then_def
        validate_email_def)

lemma read_price_absent:
  "\<not> get_truthy B row ''unit_price'' \<Longrightarrow> read_price B row = Inr (float_const B 0)"
  by (simp add: read_price_def get_truthy_def split: option.splits)

lemma read_price_bad_string:
  "row ''unit_price'' = Some (PStr s) \<Longrightarrow> s \<noteq> [] \<Longrightarrow> float_of_str B s = None \<Longrightarrow>
     read_price B row = Inl ValueError"
  by (simp add: read_price_def)

text \<open>
  Claim C7. For a row that passes the identifier and quantity checks: an absent or empty
  \<open>unit_price\<close> reads as \<open>0.0\<close>; a non-empty string that \<open>float\<close> rejects drops the row with
  the single issue \<open>invalid_price_type\<close>; and a price that reads as \<open>p\<close> is never fatal: the
  row is not dropped for its price, and if the date parses and the total can be computed
  the row is accepted, with unit price \<open>0.0\<close> and the issue \<open>negative_price\<close> when \<open>p\<close> is
  negative, and with unit price \<open>p\<close> otherwise, the issue \<open>zero_price\<close> being recorded when
  \<open>p\<close> equals zero.
\<close>

theorem unit_price_rules:
  assumes "get_truthy B row ''order_id''" "get_truthy B row ''product_id''"
    and "row ''quantity'' = Some qv" "py_int B qv = Inr q"
  shows "(\<not> get_truthy B row ''unit_price'' \<longrightarrow> read_price B row = Inr (float_const B 0)) \<and>
         (\<forall>s. row ''unit_price'' = Some (PStr s) \<and> s \<noteq> [] \<and> float_of_str B s = None \<longrightarrow>
            validate_row B row n = Inr (False, None, [''invalid_price_type''])) \<and>
         (\<forall>p. read_price B row = Inr p \<longrightarrow>
            validate_row B row n \<noteq> Inr (False, None, [''invalid_price_type'']) \<and>
            (\<forall>dv d x. row ''order_date'' = Some dv \<and> try_formats B dv date_formats = Some d \<and>
                 int_times_float B (if q \<le> 0 then 1 else q)
                   (if float_lt B p (float_const B 0) then float_const B 0 else p) = Inr x \<longrightarrow>
               (\<exists>c iss. validate_row B row n = Inr (True, Some c, iss) \<and>
                  c ''unit_price'' =
                    Some (PFloat (if float_lt B p (float_const B 0) then float_const B 0 else p)) \<and>
                  (float_lt B p (float_const B 0) \<longrightarrow> ''negative_price'' \<in> set iss) \<and>
                  (\<not> float_lt B p (float_const B 0) \<and> float_eq B p (float_const B 0) \<longrightarrow>
                     ''zero_price'' \<in> set iss))))"
proof (intro conjI allI impI)
  assume "\<not> get_truthy B row ''unit_price''"
  then show "read_price B row = Inr (float_const B 0)" by (rule read_price_absent)
next
  fix s assume "row ''unit_price'' = Some (PStr s) \<and> s \<noteq> [] \<and> float_of_str B s = None"
  then have "read_price B row = Inl ValueError" by (simp add: read_price_bad_string)
  with assms show "validate_row B row n = Inr (False, None, [''invalid_price_type''])"
    using validate_row_price_type [of B row qv q ValueError n] by (simp add: caught_def)
next
  fix p assume p: "read_price B row = Inr p"
  with assms show "validate_row B row n \<noteq> Inr (False, None, [''invalid_price_type''])"
    by (auto simp: validate_row_def validate_quantity_def validate_unit_price_def and_then_def
          validate_email_def validate_order_date_def calculate_total_def
          split: option.splits sum.splits pyval.splits if_splits)
next
  fix p dv d x
  assume p: "read_price B row = Inr p"
    and r: "row ''order_date'' = Some dv \<and> try_formats B dv date_formats = Some d \<and>
          int_times_float B (if q \<le> 0 then 1 else q)
            (if float_lt B p (float_const B 0) then float_const B 0 else p) = Inr x"
  define c where "c = (fst (validate_email B row))
           (''quantity'' \<mapsto> PInt (if q \<le> 0 then 1 else q),
            ''unit_price'' \<mapsto> PFloat (if float_lt B p (float_const B 0) then float_const B 0 else p),
            ''order_date'' \<mapsto> PStr (strftime B d ''%Y-%m-%d''),
            ''total'' \<mapsto> PFloat (round2 B x))"
  define iss where "iss = snd (validate_email B row)
           @ (if q \<le> 0 then [''invalid_quantity''] else [])
           @ (if float_lt B p (float_const B 0) then [''negative_price'']
              else if float_eq B p (float_const B 0) then [''zero_price''] else [])"
  have "accepted_by B row c iss q p d x"
    unfolding accepted_by_def using assms p r by (simp add: c_def iss_def)
  then have "validate_row B row n = Inr (True, Some c, iss)"
    unfolding validate_row_accepted_iff by blast
  moreover have "c ''unit_price'' =
        Some (PFloat (if float_lt B p (float_const B 0) then float_const B 0 else p))"
    by (simp add: c_def)
  moreover have "float_lt B p (float_const B 0) \<longrightarrow> ''negative_price'' \<in> set iss"
    "\<not> float_lt B p (float_const B 0) \<and> float_eq B p (float_const B 0) \<longrightarrow>
                     ''zero_price'' \<in> set iss"
    by (simp_all add: iss_def)
  ultimately show "\<exists>c iss. validate_row B row n = Inr (True, Some c, iss) \<and>
                  c ''unit_price'' =
                    Some (PFloat (if float_lt B p (float_const B 0) then float_const B 0 else p)) \<and>
                  (float_lt B p (float_const B 0) \<longrightarrow> ''negative_price'' \<in> set iss) \<and>
                  (\<not> float_lt B p (float_const B 0) \<and> float_eq B p (float_const B 0) \<longrightarrow>
                     ''zero_price'' \<in> set iss)"
    by blast
qed

theorem unit_price_rules_witness:
  "validate_row sample_builtins (sample_row(''unit_price'' \<mapsto> PStr ''abc'')) 1 =
     Inr (False, None, [''invalid_price_type'']) \<and>
   (\<exists>c iss. validate_row sample_builtins (sample_row(''unit_price'' \<mapsto> PStr ''-5.00'')) 1 =
          Inr (True, Some c, iss) \<and> c ''unit_price'' = Some (PFloat 0) \<and>
          ''negative_price'' \<in> set iss) \<and>
   (\<exists>c iss. validate_row sample_builtins (sample_row(''unit_price'' := None)) 1 =
          Inr (True, Some c, iss) \<and> c ''unit_price'' = Some (PFloat 0) \<and>
          ''zero_price'' \<in> set iss)"
proof -
  let ?S = sample_builtins
  let ?bad = "sample_row(''unit_price'' \<mapsto> PStr ''abc'')"
  let ?neg = "sample_row(''unit_price'' \<mapsto> PStr ''-5.00'')"
  let ?abs = "sample_row(''unit_price'' := None)"
  have bad: "get_truthy ?S ?bad ''order_id''" "get_truthy ?S ?bad ''product_id''"
    "?bad ''quantity'' = Some (PStr ''2'')" "py_int ?S (PStr ''2'') = Inr 2"
    "?bad ''unit_price'' = Some (PStr ''abc'') \<and> ''abc'' \<noteq> [] \<and> float_of_str ?S ''abc'' = None"
    by (simp_all add: get_truthy_def sample_row_def sample_builtins_def)
  have neg: "get_truthy ?S ?neg ''order_id''" "get_truthy ?S ?neg ''product_id''"
    "?neg ''quantity'' = Some (PStr ''2'')"
    "read_price ?S ?neg = Inr (- 5)"
    "?neg ''order_date'' = Some (PStr ''2024-01-15'') \<and>
     try_formats ?S (PStr ''2024-01-15'') date_formats = Some (2024, 1, 15) \<and>
     int_times_float ?S (if (2::int) \<le> 0 then 1 else 2)
        (if float_lt ?S (- 5) (float_const ?S 0) then float_const ?S 0 else - 5) = Inr 0"
    "float_lt ?S (- 5) (float_const ?S 0)" "float_const ?S 0 = 0"
    by (simp_all add: get_truthy_def sample_row_def sample_builtins_def read_price_def
          date_formats_def int_times_float_def)
  have abs: "get_truthy ?S ?abs ''order_id''" "get_truthy ?S ?abs ''product_id''"
    "?abs ''quantity'' = Some (PStr ''2'')"
    "\<not> get_truthy ?S ?abs ''unit_price''"
    "?abs ''order_date'' = Some (PStr ''2024-01-15'') \<and>
     try_formats ?S (PStr ''2024-01-15'') date_formats = Some (2024, 1, 15) \<and>
     int_times_float ?S (if (2::int) \<le> 0 then 1 else 2)
        (if float_lt ?S (float_const ?S 0) (float_const ?S 0) then float_const ?S 0
         else float_const ?S 0) = Inr 0"
    "\<not> float_lt ?S (float_const ?S 0) (float_const ?S 0)"
    "float_eq ?S (float_const ?S 0) (float_const ?S 0)"
    by (simp_all add: get_truthy_def sample_row_def sample_builtins_def
          date_formats_def int_times_float_def)
  note r1 = unit_price_rules [OF bad(1,2,3,4), of 1]
  note r2 = unit_price_rules [OF neg(1,2,3) bad(4), of 1]
  note r3 = unit_price_rules [OF abs(1,2,3) bad(4), of 1]
  from r1 bad(5) have 1: "validate_row ?S ?bad 1 = Inr (False, None, [''invalid_price_type''])"
    by blast
  note n2 = r2 [THEN conjunct2, THEN conjunct2, rule_format, OF neg(4), THEN conjunct2,
                rule_format, OF neg(5)]
  from n2 neg(6) have 2: "\<exists>c iss. validate_row ?S ?neg 1 = Inr (True, Some c, iss) \<and>
      c ''unit_price'' = Some (PFloat (float_const ?S 0)) \<and> ''negative_price'' \<in> set iss"
    by simp
  note p3 = r3 [THEN conjunct1, rule_format, OF abs(4)]
  note n3 = r3 [THEN conjunct2, THEN conjunct2, rule_format, OF p3, THEN conjunct2,
                rule_format, OF abs(5)]
  from n3 abs(6,7) have 3: "\<exists>c iss. validate_row ?S ?abs 1 = Inr (True, Some c, iss) \<and>
      c ''unit_price'' = Some (PFloat (float_const ?S 0)) \<and> ''zero_price'' \<in> set iss"
    by simp
  from 1 2 3 show ?thesis unfolding neg(7) by blast
qed

lemma validate_row_missing_quantity:
  "get_truthy B row ''order_id'' \<Longrightarrow> get_truthy B row ''product_id'' \<Longrightarrow>
   row ''quantity'' = None \<Longrightarrow> validate_row B row n = Inl KeyError"
  by (simp add: validate_row_def validate_quantity_def and_then_def validate_email_def)

text \<open>
  For contrast: a row whose \<open>quantity\<close> is present but \<open>None\<close>, as \<open>csv.DictReader\<close> gives
  for a line with too few cells, is rejected with \<open>invalid_quantity_type\<close>.
\<close>

lemma validate_row_none_quantity:
  "validate_row sample_builtins (sample_row(''quantity'' \<mapsto> PNone)) n =
     Inr (False, None, [''invalid_quantity_type''])"
  by (simp add: validate_defs sample_row_def sample_builtins_def)

lemma api_first_attempt:
  assumes "choice_draws r (choice_pos r) mod 5 \<in> {0, 1, 4}" "0 < m"
  shows "extract_from_api B r m = (api_records B, r\<lparr>choice_pos := choice_pos r + 1\<rparr>)"
proof -
  from assms(2) have "1 < m + 1" by simp
  then have "[1 ..< m + 1] = 1 # [Suc 1 ..< m + 1]" by (rule upt_conv_Cons)
  then obtain rest where "[1 ..< m + 1] = 1 # rest" by blast
  moreover have "[200, 200, 503, 500, 200 :: nat] ! (choice_draws r (choice_pos r) mod 5) = 200"
    using assms(1) by auto
  ultimately show ?thesis
    by (simp add: extract_from_api_def random_choice_def)
qed

lemma rows_prefix_map_Row: "rows_prefix (map Row rows) = rows"
  by (induction rows) simp_all

lemma sample_catalog:
  "extract_json (Some (JsonDocument sample_document)) ''products'' = Inr [Row sample_product]"
  by (simp add: extract_json_def key_in_def read_records_def item_of_def sample_document_def
        sample_product_def)

lemma sample_extraction:
  assumes "rows \<noteq> []"
  shows "run_extraction sample_builtins (Some rows)
           (Some (JsonDocument sample_document)) sample_rng =
         ([ExtractionStarted, ExtractionComplete (length rows + 3) (length rows) 1 2],
          sample_rng\<lparr>choice_pos := 1\<rparr>,
          Inr [''sales_data'' \<mapsto> map Row rows, ''product_catalog'' \<mapsto> [Row sample_product],
               ''api_data'' \<mapsto> map Row (api_records sample_builtins)])"
proof -
  have "extract_from_api sample_builtins sample_rng 3 =
          (api_records sample_builtins, sample_rng\<lparr>choice_pos := 1\<rparr>)"
    using api_first_attempt [of sample_rng 3 sample_builtins] by (simp add: sample_rng_def)
  then show ?thesis
    using assms
    by (simp add: run_extraction_def extract_csv_def sample_catalog)
       (simp add: api_records_def)
qed


section \<open>Properties of check\_duplicates\<close>

lemma first_seen_subseq: "subseq (first_seen k S xs) xs"
  by (induction xs arbitrary: S) (auto intro: subseq_Cons')

lemma first_seen_subset: "set (first_seen k S xs) \<subseteq> set xs"
  by (induction xs arbitrary: S) auto

lemma first_seen_keys: "k ` set (first_seen k S xs) = k ` set xs - S"
  by (induction xs arbitrary: S) auto

lemma first_seen_distinct: "distinct (map k (first_seen k S xs))"
proof (induction xs arbitrary: S)
  case Nil
  show ?case by simp
next
  case (Cons x xs)
  have "k x \<notin> k ` set (first_seen k (insert (k x) S) xs)"
    unfolding first_seen_keys by simp
  with Cons show ?case by simp
qed

lemma first_seen_is_first:
  "x \<in> set (first_seen k S xs) \<Longrightarrow> find (\<lambda>y. k y = k x) xs = Some x"
proof (induction xs arbitrary: S)
  case Nil
  then show ?case by simp
next
  case (Cons a xs)
  show ?case
  proof (cases "k a \<in> S")
    case True
    with Cons.prems have x: "x \<in> set (first_seen k S xs)" by simp
    then have "k x \<in> k ` set (first_seen k S xs)" by blast
    then have "k x \<notin> S" unfolding first_seen_keys by simp
    with True have "k a \<noteq> k x" by auto
    with Cons.IH [OF x] show ?thesis by simp
  next
    case False
    show ?thesis
    proof (cases "x = a")
      case True
      then show ?thesis by simp
    next
      case ne: False
      with False Cons.prems have x: "x \<in> set (first_seen k (insert (k a) S) xs)" by simp
      then have "k x \<in> k ` set (first_seen k (insert (k a) S) xs)" by blast
      then have "k x \<noteq> k a" unfolding first_seen_keys by auto
      with Cons.IH [OF x] show ?thesis by simp
    qed
  qed
qed

lemma first_seen_fixed:
  "distinct (map k ys) \<Longrightarrow> k ` set ys \<inter> S = {} \<Longrightarrow> first_seen k S ys = ys"
  by (induction ys arbitrary: S) auto

lemma first_seen_idem: "first_seen k S (first_seen k S xs) = first_seen k S xs"
  by (rule first_seen_fixed) (auto simp: first_seen_distinct first_seen_keys)

lemma dedup_loop_first_seen:
  assumes "\<forall>r\<in>set rows. \<exists>s. r ''order_id'' = Some (PStr s)"
  shows "\<exists>seen'. dedup_loop rows (seen, unique_rows, n) =
           Inr (seen', unique_rows @ first_seen (\<lambda>r. r ''order_id'') (Some ` dom seen) rows,
                n + length rows - length (first_seen (\<lambda>r. r ''order_id'') (Some ` dom seen) rows))"
  using assms
proof (induction rows arbitrary: seen unique_rows n)
  case Nil
  show ?case by simp
next
  case (Cons row rows)
  then obtain s where s: "row ''order_id'' = Some (PStr s)" by auto
  from Cons.prems have rest: "\<forall>r\<in>set rows. \<exists>s. r ''order_id'' = Some (PStr s)" by simp
  let ?F = "first_seen (\<lambda>r. r ''order_id'')"
  show ?case
  proof (cases "seen (PStr s)")
    case None
    then have notin: "Some (PStr s) \<notin> Some ` dom seen" by auto
    have d: "Some ` dom (seen(PStr s \<mapsto> length unique_rows)) = insert (Some (PStr s)) (Some ` dom seen)"
      by auto
    from Cons.IH [OF rest, of "seen(PStr s \<mapsto> length unique_rows)" "unique_rows @ [row]" n]
    obtain seen' where
      "dedup_loop rows (seen(PStr s \<mapsto> length unique_rows), unique_rows @ [row], n) =
         Inr (seen', (unique_rows @ [row]) @ ?F (insert (Some (PStr s)) (Some ` dom seen)) rows,
              n + length rows - length (?F (insert (Some (PStr s)) (Some ` dom seen)) rows))"
      unfolding d by blast
    with s None notin show ?thesis by simp
  next
    case (Some pos)
    then have isin: "Some (PStr s) \<in> Some ` dom seen" by auto
    from Cons.IH [OF rest, of seen unique_rows "n + 1"]
    obtain seen' where
      "dedup_loop rows (seen, unique_rows, n + 1) =
         Inr (seen', unique_rows @ ?F (Some ` dom seen) rows,
              n + 1 + length rows - length (?F (Some ` dom seen) rows))"
      by blast
    with s Some isin show ?thesis by simp
  qed
qed

text \<open>
  Claim C3. On rows that all carry a string \<open>order_id\<close>, \<open>check_duplicates\<close> returns a
  subsequence \<open>U\<close> of its input (so the survivors keep their first-seen order) in which the
  order ids are pairwise distinct; the row kept for an id is the first row of the input
  with that id, and every id of the input keeps its first row; the loop's
  \<open>duplicate_count\<close> is the number of rows dropped. Running \<open>check_duplicates\<close> again on
  \<open>U\<close> returns \<open>U\<close> and counts no duplicate.
\<close>

theorem check_duplicates_first_wins:
  assumes "\<forall>r\<in>set rows. \<exists>s. r ''order_id'' = Some (PStr s)"
  shows "\<exists>seen U.
     dedup_loop rows (Map.empty, [], 0) = Inr (seen, U, length rows - length U) \<and>
     check_duplicates rows = Inr U \<and>
     subseq U rows \<and>
     distinct (map (\<lambda>r. r ''order_id'') U) \<and>
     (\<forall>r\<in>set rows. find (\<lambda>r'. r' ''order_id'' = r ''order_id'') rows \<in> Some ` set U) \<and>
     (\<forall>r\<in>set U. find (\<lambda>r'. r' ''order_id'' = r ''order_id'') rows = Some r) \<and>
     (\<exists>seen2. dedup_loop U (Map.empty, [], 0) = Inr (seen2, U, 0)) \<and>
     check_duplicates U = Inr U"
proof -
  let ?k = "\<lambda>r::'a row. r ''order_id''"
  let ?U = "first_seen ?k {} rows"
  from dedup_loop_first_seen [OF assms, of Map.empty "[]" 0]
  obtain seen where 1: "dedup_loop rows (Map.empty, [], 0) = Inr (seen, ?U, length rows - length ?U)"
    by auto
  then have 2: "check_duplicates rows = Inr ?U"
    by (simp add: check_duplicates_def)
  have 3: "subseq ?U rows" by (rule first_seen_subseq)
  have 4: "distinct (map ?k ?U)" by (rule first_seen_distinct)
  have 6: "\<forall>r\<in>set ?U. find (\<lambda>r'. ?k r' = ?k r) rows = Some r"
  proof
    fix r assume "r \<in> set ?U"
    then show "find (\<lambda>r'. ?k r' = ?k r) rows = Some r" by (rule first_seen_is_first)
  qed
  have 5: "\<forall>r\<in>set rows. find (\<lambda>r'. ?k r' = ?k r) rows \<in> Some ` set ?U"
  proof
    fix r assume "r \<in> set rows"
    then have "?k r \<in> ?k ` set ?U" unfolding first_seen_keys by simp
    then obtain x where x: "x \<in> set ?U" "?k x = ?k r" by auto
    from 6 x(1) have "find (\<lambda>r'. ?k r' = ?k x) rows = Some x" by blast
    with x show "find (\<lambda>r'. ?k r' = ?k r) rows \<in> Some ` set ?U" by simp
  qed
  have "set ?U \<subseteq> set rows" by (rule first_seen_subset)
  with assms have u: "\<forall>r\<in>set ?U. \<exists>s. r ''order_id'' = Some (PStr s)" by blast
  from dedup_loop_first_seen [OF u, of Map.empty "[]" 0]
  obtain seen2 where 7: "dedup_loop ?U (Map.empty, [], 0) = Inr (seen2, ?U, 0)"
    by (auto simp: first_seen_idem)
  then have 8: "check_duplicates ?U = Inr ?U"
    by (simp add: check_duplicates_def)
  from 1 2 3 4 5 6 7 8 show ?thesis by blast
qed

theorem check_duplicates_first_wins_witness:
  "check_duplicates [sample_row, sample_row(''order_id'' \<mapsto> PStr ''1002''),
                     sample_row(''customer_name'' \<mapsto> PStr ''Bob'')] =
     Inr [sample_row, sample_row(''order_id'' \<mapsto> PStr ''1002'')] \<and>
   (\<exists>seen. dedup_loop [sample_row, sample_row(''order_id'' \<mapsto> PStr ''1002''),
                     sample_row(''customer_name'' \<mapsto> PStr ''Bob'')] (Map.empty, [], 0) =
     Inr (seen, [sample_row, sample_row(''order_id'' \<mapsto> PStr ''1002'')], 1)) \<and>
   check_duplicates [sample_row, sample_row(''order_id'' \<mapsto> PStr ''1002'')] =
     Inr [sample_row, sample_row(''order_id'' \<mapsto> PStr ''1002'')]"
proof -
  let ?rows = "[sample_row, sample_row(''order_id'' \<mapsto> PStr ''1002''),
                sample_row(''customer_name'' \<mapsto> PStr ''Bob'')]"
  let ?out = "[sample_row, sample_row(''order_id'' \<mapsto> PStr ''1002'')]"
  have h: "\<forall>r\<in>set ?rows. \<exists>s. r ''order_id'' = Some (PStr s)"
    by (simp add: sample_row_def)
  have e: "check_duplicates ?rows = Inr ?out"
    by (simp add: check_duplicates_def sample_row_def)
  from check_duplicates_first_wins [OF h] obtain seen U where
    u: "dedup_loop ?rows (Map.empty, [], 0) = Inr (seen, U, length ?rows - length U)"
       "check_duplicates ?rows = Inr U" "check_duplicates U = Inr U"
    by blast
  from u(2) e have "U = ?out" by simp
  with u e show ?thesis by simp
qed

section \<open>Properties of enrich\_with\_products\<close>

lemma find_app:
  "find P (xs @ ys) = (case find P xs of Some x \<Rightarrow> Some x | None \<Rightarrow> find P ys)"
  by (induction xs) auto

lemma build_lookup_last:
  "build_lookup ps m = Inr lookup \<Longrightarrow>
     lookup k = (case find (\<lambda>p. p ''product_id'' = Some k) (rev ps) of
                   Some p \<Rightarrow> Some p | None \<Rightarrow> m k)"
proof (induction ps arbitrary: m)
  case Nil
  then show ?case by simp
next
  case (Cons p ps)
  from Cons.prems obtain k' where k': "p ''product_id'' = Some k'" "hashable k'"
    and rest: "build_lookup ps (m(k' \<mapsto> p)) = Inr lookup"
    by (auto split: option.splits if_splits)
  from Cons.IH [OF rest] k' show ?case
    by (auto simp: find_app split: option.splits)
qed

lemma find_None_conv: "find P xs = None \<longleftrightarrow> (\<forall>x\<in>set xs. \<not> P x)"
  by (induction xs) auto

lemma find_Some_set: "find P xs = Some x \<Longrightarrow> x \<in> set xs \<and> P x"
  by (induction xs) (auto split: if_splits)

lemma enrich_loop_result:
  assumes "enrich_loop B lookup rows (acc, miss) = Inr (enriched, missing)"
  shows "\<exists>new. enriched = acc @ new \<and> list_all2 (enriched_from lookup) rows new \<and>
           set missing = set miss \<union>
             {pid. lookup pid = None \<and> (\<exists>r\<in>set rows. r ''product_id'' = Some pid)} \<and>
           (distinct miss \<longrightarrow> distinct missing)"
  using assms
proof (induction rows arbitrary: acc miss)
  case Nil
  then show ?case by simp
next
  case (Cons row rows)
  from Cons.prems obtain pid where pid: "row ''product_id'' = Some pid" "hashable pid"
    by (auto split: option.splits if_splits)
  show ?case
  proof (cases "lookup pid")
    case None
    let ?row' = "enrich_missing row"
    from Cons.prems pid None
    have "enrich_loop B lookup rows (acc @ [?row'], List.insert pid miss) = Inr (enriched, missing)"
      by simp
    from Cons.IH [OF this] obtain new where new: "enriched = (acc @ [?row']) @ new"
      "list_all2 (enriched_from lookup) rows new"
      "set missing = set (List.insert pid miss) \<union>
             {pid. lookup pid = None \<and> (\<exists>r\<in>set rows. r ''product_id'' = Some pid)}"
      "distinct (List.insert pid miss) \<longrightarrow> distinct missing"
      by blast
    have "enriched_from lookup row ?row'"
      using pid None by (simp add: enriched_from_def enrich_missing_def)
    with new(1,2) have "enriched = acc @ (?row' # new)"
      "list_all2 (enriched_from lookup) (row # rows) (?row' # new)" by simp_all
    moreover from new(3) pid None have "set missing = set miss \<union>
             {pid. lookup pid = None \<and> (\<exists>r\<in>set (row # rows). r ''product_id'' = Some pid)}"
      by auto
    moreover from new(4) have "distinct miss \<longrightarrow> distinct missing" by simp
    ultimately show ?thesis by blast
  next
    case (Some product)
    from Cons.prems pid Some obtain row' where row': "enrich_found B row product = Inr row'"
      and rest: "enrich_loop B lookup rows (acc @ [row'], miss) = Inr (enriched, missing)"
      by (auto split: sum.splits)
    from Cons.IH [OF rest] obtain new where new: "enriched = (acc @ [row']) @ new"
      "list_all2 (enriched_from lookup) rows new"
      "set missing = set miss \<union>
             {pid. lookup pid = None \<and> (\<exists>r\<in>set rows. r ''product_id'' = Some pid)}"
      "distinct miss \<longrightarrow> distinct missing"
      by blast
    from row' have "enriched_from lookup row row'"
      using pid Some
      by (auto simp: enriched_from_def enrich_found_def split: option.splits sum.splits)
    with new(1,2) have "enriched = acc @ (row' # new)"
      "list_all2 (enriched_from lookup) (row # rows) (row' # new)" by simp_all
    moreover from new(3) pid Some have "set missing = set miss \<union>
             {pid. lookup pid = None \<and> (\<exists>r\<in>set (row # rows). r ''product_id'' = Some pid)}"
      by auto
    ultimately show ?thesis using new(4) by blast
  qed
qed

lemma build_lookup_total:
  "\<forall>p\<in>set ps. \<exists>s. p ''product_id'' = Some (PStr s) \<Longrightarrow> \<exists>lookup. build_lookup ps m = Inr lookup"
  by (induction ps arbitrary: m) auto

lemma enrich_loop_total:
  assumes "\<forall>r\<in>set rows. (\<exists>s. r ''product_id'' = Some (PStr s)) \<and> r ''order_id'' \<noteq> None"
    and "\<forall>k p. lookup k = Some p \<longrightarrow>
           p ''name'' \<noteq> None \<and> p ''category'' \<noteq> None \<and> (\<exists>n. p ''stock'' = Some (PInt n))"
    and "list_all is_str miss"
  shows "\<exists>enriched missing. enrich_loop B lookup rows (acc, miss) = Inr (enriched, missing) \<and>
           list_all is_str missing"
  using assms
proof (induction rows arbitrary: acc miss)
  case Nil
  then show ?case by simp
next
  case (Cons row rows)
  then obtain s where s: "row ''product_id'' = Some (PStr s)" and o: "row ''order_id'' \<noteq> None"
    by auto
  from Cons.prems have rest:
    "\<forall>r\<in>set rows. (\<exists>s. r ''product_id'' = Some (PStr s)) \<and> r ''order_id'' \<noteq> None"
    by simp
  show ?case
  proof (cases "lookup (PStr s)")
    case None
    from Cons.prems(3) have "list_all is_str (List.insert (PStr s) miss)"
      by (simp add: list_all_iff)
    from Cons.IH [OF rest Cons.prems(2) this, of "acc @ [enrich_missing row]"] s None
    show ?thesis by simp
  next
    case (Some p)
    with Cons.prems(2) obtain name category n where
      "p ''name'' = Some name" "p ''category'' = Some category" "p ''stock'' = Some (PInt n)"
      by blast
    with o obtain row' where "enrich_found B row p = Inr row'"
      by (auto simp: enrich_found_def)
    with Cons.IH [OF rest Cons.prems(2) Cons.prems(3), of "acc @ [row']"] s Some
    show ?thesis by simp
  qed
qed

lemma distinct_count_list_one: "distinct xs \<Longrightarrow> x \<in> set xs \<Longrightarrow> count_list xs x = 1"
  by (induction xs) auto

text \<open>
  Claim C6. Whenever \<open>enrich_with_products\<close> returns, it returns one row per input row, in
  order. For a row whose \<open>product_id\<close> is the id of no catalog entry, the output row is the
  input row with \<open>product_name\<close> and \<open>category\<close> set to \<open>"UNKNOWN"\<close> and \<open>current_stock\<close>
  set to \<open>-1\<close>, and that id occurs exactly once in the set of missing products. For a row
  whose \<open>product_id\<close> is in the catalog, the output row is the input row with the three
  fields set to the \<open>name\<close>, \<open>category\<close> and \<open>stock\<close> of the entry, which is the last
  entry of the catalog with that id. The function does return when every catalog entry
  has a string \<open>product_id\<close>, a \<open>name\<close>, a \<open>category\<close> and an int \<open>stock\<close> and every row has
  a string \<open>product_id\<close> and an \<open>order_id\<close>.
\<close>

theorem enrich_with_products_join:
  "((\<forall>p\<in>set catalog. (\<exists>s. p ''product_id'' = Some (PStr s)) \<and> p ''name'' \<noteq> None \<and>
        p ''category'' \<noteq> None \<and> (\<exists>n. p ''stock'' = Some (PInt n))) \<and>
    (\<forall>r\<in>set rows. (\<exists>s. r ''product_id'' = Some (PStr s)) \<and> r ''order_id'' \<noteq> None)
    \<longrightarrow> (\<exists>enriched missing. enrich_state B rows catalog = Inr (enriched, missing))) \<and>
   (\<forall>enriched missing. enrich_state B rows catalog = Inr (enriched, missing) \<longrightarrow>
      enrich_with_products B rows catalog = Inr enriched \<and>
      length enriched = length rows \<and>
      distinct missing \<and>
      (\<forall>i<length rows. \<exists>pid. (rows ! i) ''product_id'' = Some pid \<and>
         ((\<forall>p\<in>set catalog. p ''product_id'' \<noteq> Some pid) \<longrightarrow>
            enriched ! i = (rows ! i)(''product_name'' \<mapsto> PStr ''UNKNOWN'',
                                       ''category'' \<mapsto> PStr ''UNKNOWN'',
                                       ''current_stock'' \<mapsto> PInt (- 1)) \<and>
            count_list missing pid = 1) \<and>
         (\<forall>product. find (\<lambda>p. p ''product_id'' = Some pid) (rev catalog) = Some product \<longrightarrow>
            (\<exists>name category stock.
               product ''name'' = Some name \<and> product ''category'' = Some category \<and>
               product ''stock'' = Some stock \<and>
               enriched ! i = (rows ! i)(''product_name'' \<mapsto> name, ''category'' \<mapsto> category,
                                          ''current_stock'' \<mapsto> stock)))))"
proof (intro conjI impI allI)
  assume wf: "(\<forall>p\<in>set catalog. (\<exists>s. p ''product_id'' = Some (PStr s)) \<and> p ''name'' \<noteq> None \<and>
        p ''category'' \<noteq> None \<and> (\<exists>n. p ''stock'' = Some (PInt n))) \<and>
    (\<forall>r\<in>set rows. (\<exists>s. r ''product_id'' = Some (PStr s)) \<and> r ''order_id'' \<noteq> None)"
  then obtain lookup where l: "build_lookup catalog Map.empty = Inr lookup"
    using build_lookup_total [of catalog Map.empty] by blast
  have "\<forall>k p. lookup k = Some p \<longrightarrow>
           p ''name'' \<noteq> None \<and> p ''category'' \<noteq> None \<and> (\<exists>n. p ''stock'' = Some (PInt n))"
  proof (intro allI impI)
    fix k p assume "lookup k = Some p"
    with build_lookup_last [OF l, of k]
    have "find (\<lambda>p. p ''product_id'' = Some k) (rev catalog) = Some p"
      by (simp split: option.splits)
    then have "p \<in> set catalog" by (auto dest: find_Some_set)
    with wf show "p ''name'' \<noteq> None \<and> p ''category'' \<noteq> None \<and> (\<exists>n. p ''stock'' = Some (PInt n))"
      by blast
  qed
  with wf enrich_loop_total [of rows lookup "[]" B "[]"]
  obtain enriched missing where
    "enrich_loop B lookup rows ([], []) = Inr (enriched, missing)" "list_all is_str missing"
    by auto
  with l show "\<exists>enriched missing. enrich_state B rows catalog = Inr (enriched, missing)"
    by (simp add: enrich_state_def sortable_def)
next
  fix enriched missing
  assume r: "enrich_state B rows catalog = Inr (enriched, missing)"
  then show "enrich_with_products B rows catalog = Inr enriched"
    by (simp add: enrich_with_products_def)
  from r obtain lookup where l: "build_lookup catalog Map.empty = Inr lookup"
    and e: "enrich_loop B lookup rows ([], []) = Inr (enriched, missing)"
    by (auto simp: enrich_state_def split: sum.splits if_splits)
  from enrich_loop_result [OF e] have
    a: "list_all2 (enriched_from lookup) rows enriched" and
    m: "set missing = {pid. lookup pid = None \<and> (\<exists>r\<in>set rows. r ''product_id'' = Some pid)}" and
    d: "distinct missing"
    by auto
  from a show "length enriched = length rows" by (simp add: list_all2_lengthD)
  from d show "distinct missing" .
  fix i assume i: "i < length rows"
  with a have "enriched_from lookup (rows ! i) (enriched ! i)" by (simp add: list_all2_nthD)
  then obtain pid where pid: "(rows ! i) ''product_id'' = Some pid"
    and c: "case lookup pid of
           None \<Rightarrow>
             enriched ! i = (rows ! i)(''product_name'' \<mapsto> PStr ''UNKNOWN'',
                 ''category'' \<mapsto> PStr ''UNKNOWN'', ''current_stock'' \<mapsto> PInt (- 1))
         | Some product \<Rightarrow>
             (\<exists>name category stock.
                product ''name'' = Some name \<and> product ''category'' = Some category \<and>
                product ''stock'' = Some stock \<and>
                enriched ! i = (rows ! i)(''product_name'' \<mapsto> name, ''category'' \<mapsto> category,
                           ''current_stock'' \<mapsto> stock))"
    unfolding enriched_from_def by blast
  note lk = build_lookup_last [OF l, of pid]
  have absent: "enriched ! i = (rows ! i)(''product_name'' \<mapsto> PStr ''UNKNOWN'',
                                       ''category'' \<mapsto> PStr ''UNKNOWN'',
                                       ''current_stock'' \<mapsto> PInt (- 1)) \<and>
            count_list missing pid = 1"
    if "\<forall>p\<in>set catalog. p ''product_id'' \<noteq> Some pid"
  proof -
    from that have "find (\<lambda>p. p ''product_id'' = Some pid) (rev catalog) = None"
      by (simp add: find_None_conv)
    with lk have n: "lookup pid = None" by simp
    with m pid i have "pid \<in> set missing" by auto
    with d have "count_list missing pid = 1" by (simp add: distinct_count_list_one)
    with c n show ?thesis by simp
  qed
  have present: "\<exists>name category stock.
               product ''name'' = Some name \<and> product ''category'' = Some category \<and>
               product ''stock'' = Some stock \<and>
               enriched ! i = (rows ! i)(''product_name'' \<mapsto> name, ''category'' \<mapsto> category,
                                          ''current_stock'' \<mapsto> stock)"
    if "find (\<lambda>p. p ''product_id'' = Some pid) (rev catalog) = Some product" for product
  proof -
    from that lk have "lookup pid = Some product" by simp
    with c show ?thesis by simp
  qed
  from pid absent present
  show "\<exists>pid. (rows ! i) ''product_id'' = Some pid \<and>
         ((\<forall>p\<in>set catalog. p ''product_id'' \<noteq> Some pid) \<longrightarrow>
            enriched ! i = (rows ! i)(''product_name'' \<mapsto> PStr ''UNKNOWN'',
                                       ''category'' \<mapsto> PStr ''UNKNOWN'',
                                       ''current_stock'' \<mapsto> PInt (- 1)) \<and>
            count_list missing pid = 1) \<and>
         (\<forall>product. find (\<lambda>p. p ''product_id'' = Some pid) (rev catalog) = Some product \<longrightarrow>
            (\<exists>name category stock.
               product ''name'' = Some name \<and> product ''category'' = Some category \<and>
               product ''stock'' = Some stock \<and>
               enriched ! i = (rows ! i)(''product_name'' \<mapsto> name, ''category'' \<mapsto> category,
                                          ''current_stock'' \<mapsto> stock)))"
    by blast
qed

theorem enrich_with_products_join_witness:
  "enrich_with_products sample_builtins
     [sample_row, sample_row(''product_id'' \<mapsto> PStr ''P9''),
      sample_row(''order_id'' \<mapsto> PStr ''1003'', ''product_id'' \<mapsto> PStr ''P9'')]
     [sample_product] =
   Inr [sample_row(''product_name'' \<mapsto> PStr ''Widget'', ''category'' \<mapsto> PStr ''Tools'',
                   ''current_stock'' \<mapsto> PInt 25),
        sample_row(''product_id'' \<mapsto> PStr ''P9'', ''product_name'' \<mapsto> PStr ''UNKNOWN'',
                   ''category'' \<mapsto> PStr ''UNKNOWN'', ''current_stock'' \<mapsto> PInt (- 1)),
        sample_row(''order_id'' \<mapsto> PStr ''1003'', ''product_id'' \<mapsto> PStr ''P9'',
                   ''product_name'' \<mapsto> PStr ''UNKNOWN'', ''category'' \<mapsto> PStr ''UNKNOWN'',
                   ''current_stock'' \<mapsto> PInt (- 1))] \<and>
   (\<exists>enriched. enrich_state sample_builtins
     [sample_row, sample_row(''product_id'' \<mapsto> PStr ''P9''),
      sample_row(''order_id'' \<mapsto> PStr ''1003'', ''product_id'' \<mapsto> PStr ''P9'')]
     [sample_product] = Inr (enriched, [PStr ''P9'']))"
proof -
  let ?rows = "[sample_row, sample_row(''product_id'' \<mapsto> PStr ''P9''),
      sample_row(''order_id'' \<mapsto> PStr ''1003'', ''product_id'' \<mapsto> PStr ''P9'')]"
  let ?out = "[sample_row(''product_name'' \<mapsto> PStr ''Widget'', ''category'' \<mapsto> PStr ''Tools'',
                   ''current_stock'' \<mapsto> PInt 25),
        sample_row(''product_id'' \<mapsto> PStr ''P9'', ''product_name'' \<mapsto> PStr ''UNKNOWN'',
                   ''category'' \<mapsto> PStr ''UNKNOWN'', ''current_stock'' \<mapsto> PInt (- 1)),
        sample_row(''order_id'' \<mapsto> PStr ''1003'', ''product_id'' \<mapsto> PStr ''P9'',
                   ''product_name'' \<mapsto> PStr ''UNKNOWN'', ''category'' \<mapsto> PStr ''UNKNOWN'',
                   ''current_stock'' \<mapsto> PInt (- 1))]"
  have wf: "(\<forall>p\<in>set [sample_product]. (\<exists>s. p ''product_id'' = Some (PStr s)) \<and> p ''name'' \<noteq> None \<and>
        p ''category'' \<noteq> None \<and> (\<exists>n. p ''stock'' = Some (PInt n))) \<and>
    (\<forall>r\<in>set ?rows. (\<exists>s. r ''product_id'' = Some (PStr s)) \<and> r ''order_id'' \<noteq> None)"
    by (simp add: sample_product_def sample_row_def)
  have e: "enrich_state sample_builtins ?rows [sample_product] = Inr (?out, [PStr ''P9''])"
    by (simp add: enrich_state_def enrich_found_def enrich_missing_def sortable_def
          LOW_STOCK_THRESHOLD_def sample_product_def sample_row_def sample_builtins_def)
  note t = enrich_with_products_join [of "[sample_product]" ?rows sample_builtins]
  from t [THEN conjunct1, rule_format, OF wf] e
  have "\<exists>enriched. enrich_state sample_builtins ?rows [sample_product] = Inr (enriched, [PStr ''P9''])"
    by simp
  moreover from t [THEN conjunct2, rule_format, OF e]
  have "enrich_with_products sample_builtins ?rows [sample_product] = Inr ?out"
    by blast
  ultimately show ?thesis by blast
qed

section \<open>Properties of run\_extraction\<close>

lemma api_attempts_all_fail:
  assumes "\<forall>i<length attempts.
     [200, 200, 503, 500, 200 :: nat] ! (choice_draws r (choice_pos r + i) mod 5) \<noteq> 200"
  shows "api_attempts B r attempts = ([], r\<lparr>choice_pos := choice_pos r + length attempts\<rparr>)"
  using assms
proof (induction attempts arbitrary: r)
  case Nil
  show ?case by simp
next
  case (Cons a attempts)
  let ?r' = "r\<lparr>choice_pos := choice_pos r + 1\<rparr>"
  from Cons.prems have first:
    "[200, 200, 503, 500, 200 :: nat] ! (choice_draws r (choice_pos r) mod 5) \<noteq> 200"
    by force
  have "\<forall>i<length attempts.
     [200, 200, 503, 500, 200 :: nat] ! (choice_draws ?r' (choice_pos ?r' + i) mod 5) \<noteq> 200"
  proof (intro allI impI)
    fix i assume "i < length attempts"
    then have "Suc i < length (a # attempts)" by simp
    with Cons.prems have
      "[200, 200, 503, 500, 200 :: nat] ! (choice_draws r (choice_pos r + Suc i) mod 5) \<noteq> 200"
      by blast
    then show "[200, 200, 503, 500, 200 :: nat] ! (choice_draws ?r' (choice_pos ?r' + i) mod 5) \<noteq> 200"
      by simp
  qed
  from Cons.IH [OF this] first show ?case
    by (simp add: random_choice_def)
qed

lemma extract_json_no_document:
  "extract_json None key = Inr []" "extract_json (Some JsonMalformed) key = Inr []"
  by (simp_all add: extract_json_def)

lemma extract_json_missing_key:
  "map_of kvs key = None \<Longrightarrow> extract_json (Some (JsonDocument (PDict kvs))) key = Inr []"
  by (simp add: extract_json_def key_in_def)

lemma run_extraction_json_raises:
  "extract_json json ''products'' = Inl e \<Longrightarrow>
     run_extraction B csv json r = ([ExtractionStarted], r, Inl e)"
  by (simp add: run_extraction_def)

lemma run_extraction_json_returns:
  assumes "extract_json json ''products'' = Inr catalog"
  shows "extract_csv csv = [] \<Longrightarrow>
           \<exists>l r'. run_extraction B csv json r = (l, r', Inl RuntimeError)"
    and "extract_csv csv \<noteq> [] \<Longrightarrow>
           \<exists>l r'. run_extraction B csv json r =
             (l, r', Inr [''sales_data'' \<mapsto> map Row (extract_csv csv),
                          ''product_catalog'' \<mapsto> catalog,
                          ''api_data'' \<mapsto> map Row (fst (extract_from_api B r 3))])"
  using assms by (simp_all add: run_extraction_def Let_def case_prod_beta)

text \<open>
  Claim C4. A JSON file whose document is an array of products, not an object with the
  key \<open>products\<close>, has that key missing. \<open>extract_json\<close> does not return the empty list for
  it: building the error message raises \<open>AttributeError\<close>. Nothing catches it, so
  \<open>run_extraction\<close> raises although the CSV source has a row, the API is not called, and
  the run ends with the extraction phase failed.
\<close>

theorem json_array_aborts_extraction:
  "extract_json
     (Some (JsonDocument (PList [PDict [(''product_id'', PStr ''P1''), (''name'', PStr ''Widget''),
                                        (''category'', PStr ''Tools''), (''stock'', PInt 25)]])))
     ''products'' = (Inl AttributeError :: error + rat item list) \<and>
   run_extraction sample_builtins (Some [sample_row])
     (Some (JsonDocument (PList [PDict [(''product_id'', PStr ''P1''), (''name'', PStr ''Widget''),
                                        (''category'', PStr ''Tools''), (''stock'', PInt 25)]])))
     sample_rng = ([ExtractionStarted], sample_rng, Inl AttributeError) \<and>
   fst (run_pipeline sample_builtins
          ((sample_env [sample_row])
             \<lparr>json_file := Some (JsonDocument
                (PList [PDict [(''product_id'', PStr ''P1''), (''name'', PStr ''Widget''),
                               (''category'', PStr ''Tools''), (''stock'', PInt 25)]]))\<rparr>))
     = \<lparr>extracted = 0, transformed = 0, loaded = 0, skipped = 0, errors = 1,
        phase_failed = Some ''extraction''\<rparr>"
proof -
  let ?doc = "PList [PDict [(''product_id'', PStr ''P1''), (''name'', PStr ''Widget''),
                            (''category'', PStr ''Tools''), (''stock'', PInt 25)]] :: rat pyval"
  have 1: "extract_json (Some (JsonDocument ?doc)) ''products'' = Inl AttributeError"
    by (simp add: extract_json_def key_in_def)
  have 2: "run_extraction sample_builtins (Some [sample_row]) (Some (JsonDocument ?doc))
             sample_rng = ([ExtractionStarted], sample_rng, Inl AttributeError)"
    using 1 by (rule run_extraction_json_raises)
  have 3: "run_pipeline sample_builtins
             ((sample_env [sample_row])\<lparr>json_file := Some (JsonDocument ?doc)\<rparr>) =
           (\<lparr>extracted = 0, transformed = 0, loaded = 0, skipped = 0, errors = 1,
             phase_failed = Some ''extraction''\<rparr>,
            [PipelineStarted, ExtractionStarted, ExtractionFailed], [])"
    using 2 by (simp add: run_pipeline_def sample_env_def initial_stats_def)
  from 1 2 3 show ?thesis by simp
qed

section \<open>Properties of run\_loading\<close>

lemma ceil10_le: "(n::nat) \<le> ((n + 9) div 10) * 10"
proof -
  have "(n + 9) = ((n + 9) div 10) * 10 + (n + 9) mod 10" by simp
  moreover have "(n + 9) mod 10 < 10" by simp
  ultimately show ?thesis by linarith
qed

lemma lt_ceil10: "(i::nat) < (n + 9) div 10 \<Longrightarrow> i * 10 < n"
proof -
  assume "i < (n + 9) div 10"
  then have "(i + 1) * 10 \<le> n + 9" by (simp add: less_eq_div_iff_mult_less_eq)
  then show ?thesis by simp
qed

lemma suc_lt_ceil10: "(i::nat) + 1 < (n + 9) div 10 \<Longrightarrow> (i + 1) * 10 < n"
  using lt_ceil10 [of "i + 1" n] by simp

lemma ceil10_le_suc: "(n + 9) div 10 \<le> (i::nat) + 1 \<Longrightarrow> n \<le> (i + 1) * 10"
proof -
  assume "(n + 9) div 10 \<le> i + 1"
  then have "((n + 9) div 10) * 10 \<le> (i + 1) * 10" by simp
  with ceil10_le [of n] show ?thesis by linarith
qed

lemma concat_batches_take:
  "concat (map (\<lambda>j. take n (drop (j * n) xs)) [0 ..< k]) = take (k * n) xs"
proof (induction k)
  case 0
  show ?case by simp
next
  case (Suc k)
  have "take (k * n + n) xs = take (k * n) xs @ take n (drop (k * n) xs)"
    by (rule take_add)
  with Suc show ?case by (simp add: add.commute)
qed

lemma split_batches_nth:
  "i < length (split_batches xs) \<Longrightarrow> split_batches xs ! i = take BATCH_SIZE (drop (i * BATCH_SIZE) xs)"
  by (simp add: split_batches_def range_step_def)

lemma length_split_batches: "length (split_batches xs) = (length xs + 9) div 10"
  by (simp add: split_batches_def range_step_def BATCH_SIZE_def)

lemma concat_take_split_batches:
  "m \<le> length (split_batches xs) \<Longrightarrow> concat (take m (split_batches xs)) = take (m * 10) xs"
proof -
  assume m: "m \<le> length (split_batches xs)"
  have "take m (split_batches xs) = map (\<lambda>j. take 10 (drop (j * 10) xs)) [0 ..< m]"
    using m by (simp add: split_batches_def range_step_def BATCH_SIZE_def take_map comp_def
                  length_split_batches)
  then show ?thesis by (simp add: concat_batches_take)
qed

lemma concat_split_batches: "concat (split_batches xs) = xs"
proof -
  have "concat (take (length (split_batches xs)) (split_batches xs))
          = take (length (split_batches xs) * 10) xs"
    by (rule concat_take_split_batches) simp
  moreover have "length xs \<le> length (split_batches xs) * 10"
    unfolding length_split_batches by (rule ceil10_le)
  ultimately show ?thesis by simp
qed

lemma length_batch:
  assumes "i < length (split_batches xs)"
  shows "length (split_batches xs ! i) =
           (if i + 1 < length (split_batches xs) then 10 else length xs - 10 * i)"
    and "0 < length (split_batches xs ! i)"
proof -
  from assms have i: "i < (length xs + 9) div 10" by (simp add: length_split_batches)
  then have lt: "i * 10 < length xs" by (rule lt_ceil10)
  have len: "length (split_batches xs ! i) = min 10 (length xs - i * 10)"
    using assms by (simp add: split_batches_nth BATCH_SIZE_def min.commute)
  show "0 < length (split_batches xs ! i)" using len lt by simp
  show "length (split_batches xs ! i) =
           (if i + 1 < length (split_batches xs) then 10 else length xs - 10 * i)"
  proof (cases "i + 1 < length (split_batches xs)")
    case True
    then have "i + 1 < (length xs + 9) div 10" by (simp add: length_split_batches)
    then have "(i + 1) * 10 < length xs" by (rule suc_lt_ceil10)
    with len True show ?thesis by simp
  next
    case False
    then have "(length xs + 9) div 10 \<le> i + 1" by (simp add: length_split_batches)
    then have "length xs \<le> (i + 1) * 10" by (rule ceil10_le_suc)
    with len False show ?thesis by (simp add: mult.commute)
  qed
qed

lemma insert_params_hd:
  "insert_params B row = Inr params \<Longrightarrow> row ''order_id'' = Some (hd params)"
  by (auto simp: insert_params_def split: option.splits)

lemma execute_insert_result:
  "execute_insert t params = Inr (rowcount, t') \<Longrightarrow>
     hd params \<in> hd ` set t' \<and> prefix t t' \<and> (t' = t \<or> t' = t @ [params])"
  by (auto simp: execute_insert_def split: option.splits if_splits)

lemma execute_insert_no_integrity: "execute_insert t params \<noteq> Inl IntegrityError"
proof -
  have b: "\<forall>v\<in>set params. bind_error v \<noteq> Some IntegrityError"
  proof
    fix v assume "v \<in> set params"
    show "bind_error v \<noteq> Some IntegrityError"
      by (cases v) (auto split: if_splits)
  qed
  have "find (\<lambda>e. e \<noteq> None) (map bind_error params) \<noteq> Some (Some IntegrityError)"
  proof
    assume "find (\<lambda>e. e \<noteq> None) (map bind_error params) = Some (Some IntegrityError)"
    then have "Some IntegrityError \<in> set (map bind_error params)"
      by (auto dest: find_Some_set)
    with b show False by force
  qed
  then show ?thesis
    by (auto simp: execute_insert_def split: option.splits)
qed

lemma load_rows_result:
  "load_rows B rows (i, s, t) = Inr (i', s', t') \<Longrightarrow>
     (\<forall>row\<in>set rows. \<exists>v. row ''order_id'' = Some v \<and> v \<in> hd ` set t') \<and>
     prefix t t' \<and> i' + s' = i + s + length rows"
proof (induction rows arbitrary: i s t)
  case Nil
  then show ?case by simp
next
  case (Cons row rows)
  from Cons.prems obtain params where p: "insert_params B row = Inr params"
    by (auto split: sum.splits)
  from Cons.prems p obtain rowcount t1 where e: "execute_insert t params = Inr (rowcount, t1)"
    using execute_insert_no_integrity [of t params]
    by (auto split: sum.splits if_splits)
  from Cons.prems p e obtain i1 s1 where
    rest: "load_rows B rows (i1, s1, t1) = Inr (i', s', t')" and sum: "i1 + s1 = i + s + 1"
    by (auto split: if_splits)
  from Cons.IH [OF rest] have ih:
    "\<forall>row\<in>set rows. \<exists>v. row ''order_id'' = Some v \<and> v \<in> hd ` set t'"
    "prefix t1 t'" "i' + s' = i1 + s1 + length rows"
    by auto
  from execute_insert_result [OF e] have x: "hd params \<in> hd ` set t1" "prefix t t1" by auto
  from ih(2) have "set t1 \<subseteq> set t'" by (auto simp: prefix_def)
  with x(1) have "hd params \<in> hd ` set t'" by auto
  with insert_params_hd [OF p] have "\<exists>v. row ''order_id'' = Some v \<and> v \<in> hd ` set t'" by simp
  moreover from x(2) ih(2) have "prefix t t'" by (rule prefix_order.trans)
  ultimately show ?case using ih(1,3) sum by simp
qed

lemma commit_batches_result:
  assumes "commit_batches B bs (i, s, c) = Inr (i', s', c')" "committed c = working c"
  shows "committed c' = working c' \<and> prefix (committed c) (committed c') \<and>
         (\<forall>row\<in>set (concat bs). \<exists>v. row ''order_id'' = Some v \<and> v \<in> hd ` set (committed c')) \<and>
         i' + s' = i + s + length (concat bs)"
  using assms
proof (induction bs arbitrary: i s c)
  case Nil
  then show ?case by simp
next
  case (Cons b bs)
  from Cons.prems(1) obtain i1 s1 t1 where
    l: "load_rows B b (0, 0, working c) = Inr (i1, s1, t1)" and
    rest: "commit_batches B bs (i + i1, s + s1, commit (c\<lparr>working := t1\<rparr>)) = Inr (i', s', c')"
    by (auto simp: load_batch_def split: sum.splits)
  let ?c1 = "commit (c\<lparr>working := t1\<rparr>)"
  have c1: "committed ?c1 = working ?c1" "committed ?c1 = t1" by (simp_all add: commit_def)
  from Cons.IH [OF rest c1(1)] have ih: "committed c' = working c'"
    "prefix t1 (committed c')"
    "\<forall>row\<in>set (concat bs). \<exists>v. row ''order_id'' = Some v \<and> v \<in> hd ` set (committed c')"
    "i' + s' = i + i1 + (s + s1) + length (concat bs)"
    unfolding c1(2) by blast+
  from load_rows_result [OF l] have lr:
    "\<forall>row\<in>set b. \<exists>v. row ''order_id'' = Some v \<and> v \<in> hd ` set t1"
    "prefix (working c) t1" "i1 + s1 = length b"
    by auto
  from ih(2) have sub: "set t1 \<subseteq> set (committed c')" by (auto simp: prefix_def)
  from lr(1) sub have "\<forall>row\<in>set b. \<exists>v. row ''order_id'' = Some v \<and> v \<in> hd ` set (committed c')"
    by blast
  moreover from lr(2) ih(2) Cons.prems(2) have "prefix (committed c) (committed c')"
    by (metis prefix_order.trans)
  ultimately show ?case using ih(1,3,4) lr(3) by auto
qed

lemma simulate_connection_issue_last:
  "simulate_connection_issue B k tb r = (True, r') \<Longrightarrow> k = tb"
  by (auto simp: simulate_connection_issue_def split: if_splits)

lemma load_batch_num: "load_batch B c b k = load_batch B c b 0"
  by (simp add: load_batch_def)

lemma zip_upt_Cons:
  "zip [i ..< i + length (b # bs)] (b # bs) = (i, b) # zip [Suc i ..< Suc i + length bs] bs"
proof -
  have "i < i + length (b # bs)" by simp
  then have "[i ..< i + length (b # bs)] = i # [Suc i ..< i + length (b # bs)]"
    by (rule upt_conv_Cons)
  then show ?thesis by (simp del: upt_Suc)
qed

lemma batch_loop_trace:
  assumes "batch_loop B tb (zip [i ..< i + length bs] bs) st = (st', err)"
  shows "\<exists>m ins sk c. m \<le> length bs \<and>
     commit_batches B (take m bs) (total_inserted st, total_skipped st, conn st) = Inr (ins, sk, c) \<and>
     total_inserted st' = ins \<and> total_skipped st' = sk \<and>
     ((m = length bs \<and> err = None \<and> conn st' = c \<and>
       events st' = events st @ committed_events tb i m) \<or>
      (m < length bs \<and> err = None \<and> i + m = tb \<and> conn st' = rollback c \<and>
       events st' = events st @ committed_events tb i m @
          [BatchProcessing (i + m) tb, ConnectionLost (i + m) tb (length (bs ! m)),
           RollbackSuccessful (length (bs ! m)) (i + m) ins]) \<or>
      (m < length bs \<and> err \<noteq> None \<and> conn st' = c \<and>
       events st' = events st @ committed_events tb i m @
          [BatchProcessing (i + m) tb]))"
  using assms
proof (induction bs arbitrary: i st)
  case Nil
  then have "st' = st" "err = None" by simp_all
  then show ?case by simp
next
  case (Cons b bs)
  obtain fail r' where sim: "simulate_connection_issue B i tb (gen st) = (fail, r')"
    by (cases "simulate_connection_issue B i tb (gen st)")
  note step = Cons.prems [unfolded zip_upt_Cons]
  show ?case
  proof (cases fail)
    case True
    with sim have tb: "i = tb" by (auto dest: simulate_connection_issue_last)
    from step sim True have st': "st' = st\<lparr>conn := rollback (conn st), gen := r',
              events := events st @ [BatchProcessing i tb,
                 ConnectionLost i tb (length b),
                 RollbackSuccessful (length b) i (total_inserted st)]\<rparr>" and err: "err = None"
      by simp_all
    have "0 \<le> length (b # bs) \<and>
       commit_batches B (take 0 (b # bs)) (total_inserted st, total_skipped st, conn st)
          = Inr (total_inserted st, total_skipped st, conn st) \<and>
       total_inserted st' = total_inserted st \<and> total_skipped st' = total_skipped st \<and>
       (0 < length (b # bs) \<and> err = None \<and> i + 0 = tb \<and> conn st' = rollback (conn st) \<and>
       events st' = events st @ committed_events tb i 0 @
          [BatchProcessing (i + 0) tb, ConnectionLost (i + 0) tb (length ((b # bs) ! 0)),
           RollbackSuccessful (length ((b # bs) ! 0)) (i + 0) (total_inserted st)])"
      using st' err tb by simp
    then show ?thesis by blast
  next
    case False
    show ?thesis
    proof (cases "load_batch B (conn st) b i")
      case (Inl e)
      with step sim False have st': "st' = st\<lparr>gen := r',
                   events := events st @ [BatchProcessing i tb]\<rparr>" and err: "err = Some e"
        by simp_all
      have "0 \<le> length (b # bs) \<and>
         commit_batches B (take 0 (b # bs)) (total_inserted st, total_skipped st, conn st)
            = Inr (total_inserted st, total_skipped st, conn st) \<and>
         total_inserted st' = total_inserted st \<and> total_skipped st' = total_skipped st \<and>
         (0 < length (b # bs) \<and> err \<noteq> None \<and> conn st' = conn st \<and>
          events st' = events st @ committed_events tb i 0 @
            [BatchProcessing (i + 0) tb])"
        using st' err by simp
      then show ?thesis by blast
    next
      case (Inr res)
      then obtain ins1 sk1 c1 where lb: "load_batch B (conn st) b i = Inr (ins1, sk1, c1)"
        by (cases res) auto
      let ?st1 = "st\<lparr>conn := commit c1,
                     total_inserted := total_inserted st + ins1,
                     total_skipped := total_skipped st + sk1,
                     gen := r',
                     events := events st @ [BatchProcessing i tb, BatchCommitted i]\<rparr>"
      from step sim False lb
      have rest: "batch_loop B tb (zip [Suc i ..< Suc i + length bs] bs) ?st1 = (st', err)"
        by simp
      from Cons.IH [OF rest] obtain m ins sk c where m: "m \<le> length bs"
        and cb: "commit_batches B (take m bs)
                   (total_inserted st + ins1, total_skipped st + sk1, commit c1) = Inr (ins, sk, c)"
        and tot: "total_inserted st' = ins" "total_skipped st' = sk"
        and alt: "(m = length bs \<and> err = None \<and> conn st' = c \<and>
            events st' = events ?st1 @ committed_events tb (Suc i) m) \<or>
          (m < length bs \<and> err = None \<and> Suc i + m = tb \<and> conn st' = rollback c \<and>
            events st' = events ?st1 @ committed_events tb (Suc i) m @
              [BatchProcessing (Suc i + m) tb, ConnectionLost (Suc i + m) tb (length (bs ! m)),
               RollbackSuccessful (length (bs ! m)) (Suc i + m) ins]) \<or>
          (m < length bs \<and> err \<noteq> None \<and> conn st' = c \<and>
            events st' = events ?st1 @ committed_events tb (Suc i) m @
              [BatchProcessing (Suc i + m) tb])"
        by auto
      from lb have lb0: "load_batch B (conn st) b 0 = Inr (ins1, sk1, c1)"
        using load_batch_num [of B "conn st" b i] by simp
      have cb': "commit_batches B (take (Suc m) (b # bs))
                   (total_inserted st, total_skipped st, conn st) = Inr (ins, sk, c)"
        using lb0 cb by simp
      have "Suc m \<le> length (b # bs) \<and>
         commit_batches B (take (Suc m) (b # bs)) (total_inserted st, total_skipped st, conn st)
            = Inr (ins, sk, c) \<and>
         total_inserted st' = ins \<and> total_skipped st' = sk \<and>
         ((Suc m = length (b # bs) \<and> err = None \<and> conn st' = c \<and>
           events st' = events st @ committed_events tb i (Suc m)) \<or>
          (Suc m < length (b # bs) \<and> err = None \<and> i + Suc m = tb \<and> conn st' = rollback c \<and>
           events st' = events st @ committed_events tb i (Suc m) @
              [BatchProcessing (i + Suc m) tb, ConnectionLost (i + Suc m) tb (length ((b # bs) ! Suc m)),
               RollbackSuccessful (length ((b # bs) ! Suc m)) (i + Suc m) ins]) \<or>
          (Suc m < length (b # bs) \<and> err \<noteq> None \<and> conn st' = c \<and>
           events st' = events st @ committed_events tb i (Suc m) @
              [BatchProcessing (i + Suc m) tb]))"
        using m cb' tot alt by auto
      then show ?thesis by blast
    qed
  qed
qed

lemma attempted_append: "attempted (xs @ ys) = attempted xs @ attempted ys"
  by (induction xs rule: attempted.induct) simp_all

lemma committed_batches_append:
  "committed_batches (xs @ ys) = committed_batches xs @ committed_batches ys"
  by (induction xs rule: committed_batches.induct) simp_all

lemma attempted_committed_events: "attempted (committed_events tb i m) = [i ..< i + m]"
proof (induction m arbitrary: i)
  case 0
  show ?case by simp
next
  case (Suc m)
  have "i < i + Suc m" by simp
  then have "[i ..< i + Suc m] = i # [Suc i ..< i + Suc m]" by (rule upt_conv_Cons)
  with Suc [of "Suc i"] show ?case by (simp del: upt_Suc)
qed

lemma committed_batches_committed_events:
  "committed_batches (committed_events tb i m) = [i ..< i + m]"
proof (induction m arbitrary: i)
  case 0
  show ?case by simp
next
  case (Suc m)
  have "i < i + Suc m" by simp
  then have "[i ..< i + Suc m] = i # [Suc i ..< i + Suc m]" by (rule upt_conv_Cons)
  with Suc [of "Suc i"] show ?case by (simp del: upt_Suc)
qed

lemma no_connection_lost_committed_events:
  "ConnectionLost k n len \<notin> set (committed_events tb i m)"
  by (induction m arbitrary: i) simp_all

lemma enumerate1_zip: "enumerate1 bs = zip [1 ..< 1 + length bs] bs"
  by (simp add: enumerate1_def)

text \<open>The three ways a run of \<open>run_loading\<close> with an open database can go.\<close>

lemma run_loading_cases:
  assumes "run_loading B rows None disk r = (evs, disk', r', res)"
  shows "\<exists>m ins sk c. m \<le> length (split_batches rows) \<and>
     commit_batches B (take m (split_batches rows)) (0, 0, \<lparr>committed = disk, working = disk\<rparr>)
        = Inr (ins, sk, c) \<and>
     disk' = committed c \<and>
     ((m = length (split_batches rows) \<and> res = Inr (ins, sk) \<and>
       evs = LoadingStarted # committed_events (length (split_batches rows)) 1 m @
               [LoadingComplete ins sk]) \<or>
      (m < length (split_batches rows) \<and> res = Inr (ins, sk) \<and>
       1 + m = length (split_batches rows) \<and>
       evs = LoadingStarted # committed_events (length (split_batches rows)) 1 m @
          [BatchProcessing (1 + m) (length (split_batches rows)),
           ConnectionLost (1 + m) (length (split_batches rows)) (length (split_batches rows ! m)),
           RollbackSuccessful (length (split_batches rows ! m)) (1 + m) ins,
           LoadingComplete ins sk]) \<or>
      (m < length (split_batches rows) \<and> isl res \<and>
       evs = LoadingStarted # committed_events (length (split_batches rows)) 1 m @
          [BatchProcessing (1 + m) (length (split_batches rows))]))"
proof -
  let ?bs = "split_batches rows"
  let ?n = "length ?bs"
  let ?st0 = "\<lparr>conn = \<lparr>committed = disk, working = disk\<rparr>, total_inserted = 0,
               total_skipped = 0, gen = r, events = [LoadingStarted]\<rparr>"
  obtain st err where bl: "batch_loop B ?n (zip [1 ..< 1 + length ?bs] ?bs) ?st0 = (st, err)"
    by (cases "batch_loop B ?n (zip [1 ..< 1 + length ?bs] ?bs) ?st0")
  from assms bl have out:
    "err = None \<longrightarrow> evs = events st @ [LoadingComplete (total_inserted st) (total_skipped st)] \<and>
        res = Inr (total_inserted st, total_skipped st)"
    "err \<noteq> None \<longrightarrow> evs = events st \<and> isl res"
    "disk' = committed (conn st)"
    by (auto simp: run_loading_def create_database_def enumerate1_zip Let_def
             split: option.splits)
  from batch_loop_trace [OF bl] obtain m ins sk c where m: "m \<le> ?n"
    and cb: "commit_batches B (take m ?bs) (0, 0, \<lparr>committed = disk, working = disk\<rparr>) = Inr (ins, sk, c)"
    and tot: "total_inserted st = ins" "total_skipped st = sk"
    and alt: "(m = ?n \<and> err = None \<and> conn st = c \<and>
       events st = [LoadingStarted] @ committed_events ?n 1 m) \<or>
      (m < ?n \<and> err = None \<and> 1 + m = ?n \<and> conn st = rollback c \<and>
       events st = [LoadingStarted] @ committed_events ?n 1 m @
          [BatchProcessing (1 + m) ?n, ConnectionLost (1 + m) ?n (length (?bs ! m)),
           RollbackSuccessful (length (?bs ! m)) (1 + m) ins]) \<or>
      (m < ?n \<and> err \<noteq> None \<and> conn st = c \<and>
       events st = [LoadingStarted] @ committed_events ?n 1 m @
          [BatchProcessing (1 + m) ?n])"
    by auto
  have d: "disk' = committed c"
    using alt out(3) by (auto simp: rollback_def)
  from alt out(1,2) tot have
    "(m = ?n \<and> res = Inr (ins, sk) \<and>
       evs = LoadingStarted # committed_events ?n 1 m @ [LoadingComplete ins sk]) \<or>
      (m < ?n \<and> res = Inr (ins, sk) \<and> 1 + m = ?n \<and>
       evs = LoadingStarted # committed_events ?n 1 m @
          [BatchProcessing (1 + m) ?n, ConnectionLost (1 + m) ?n (length (?bs ! m)),
           RollbackSuccessful (length (?bs ! m)) (1 + m) ins, LoadingComplete ins sk]) \<or>
      (m < ?n \<and> isl res \<and>
       evs = LoadingStarted # committed_events ?n 1 m @ [BatchProcessing (1 + m) ?n])"
    by auto
  with m cb d show ?thesis by blast
qed

text \<open>
  Claim C1. \<open>run_loading\<close> splits the rows into consecutive batches, all of size 10 except
  possibly the last, and starts them in the order 1, 2, ... without repeating one. If the
  log reports a connection failure on batch \<open>k\<close> of \<open>n\<close>, then \<open>n\<close> is the number of batches,
  the batches started are exactly 1 to \<open>k\<close> and the batches committed exactly 1 to \<open>k - 1\<close>;
  the function returns the counts of loading batches 1 to \<open>k - 1\<close>, which cover all their
  rows; the table on disk is the table after these batches: it extends the initial table,
  holds the order id of every row of batches 1 to \<open>k - 1\<close>, and nothing of batch \<open>k\<close> was
  added to it. In this code the failure is simulated on the last batch only, so \<open>k = n\<close>.
\<close>

theorem run_loading_batch_atomicity:
  assumes "run_loading B rows None disk r = (evs, disk', r', res)"
  shows "concat (split_batches rows) = rows \<and>
     (\<forall>i<length (split_batches rows).
        0 < length (split_batches rows ! i) \<and>
        length (split_batches rows ! i) =
          (if i + 1 < length (split_batches rows) then 10 else length rows - 10 * i)) \<and>
     (\<exists>a\<le>length (split_batches rows). attempted evs = [1 ..< a + 1]) \<and>
     (\<forall>k n len. ConnectionLost k n len \<in> set evs \<longrightarrow>
        n = length (split_batches rows) \<and> 1 \<le> k \<and> k \<le> n \<and> k = n \<and>
        len = length (split_batches rows ! (k - 1)) \<and>
        attempted evs = [1 ..< k + 1] \<and>
        committed_batches evs = [1 ..< k] \<and>
        (\<exists>ins sk c.
           commit_batches B (take (k - 1) (split_batches rows))
             (0, 0, \<lparr>committed = disk, working = disk\<rparr>) = Inr (ins, sk, c) \<and>
           res = Inr (ins, sk) \<and> disk' = committed c \<and>
           ins + sk = length (concat (take (k - 1) (split_batches rows)))) \<and>
        concat (take (k - 1) (split_batches rows)) = take ((k - 1) * 10) rows \<and>
        prefix disk disk' \<and>
        (\<forall>row\<in>set (take ((k - 1) * 10) rows).
           \<exists>v. row ''order_id'' = Some v \<and> v \<in> hd ` set disk'))"
proof -
  let ?bs = "split_batches rows"
  let ?n = "length ?bs"
  from run_loading_cases [OF assms] obtain m ins sk c where m: "m \<le> ?n"
    and cb: "commit_batches B (take m ?bs) (0, 0, \<lparr>committed = disk, working = disk\<rparr>)
        = Inr (ins, sk, c)"
    and d: "disk' = committed c"
    and alt: "(m = ?n \<and> res = Inr (ins, sk) \<and>
       evs = LoadingStarted # committed_events ?n 1 m @ [LoadingComplete ins sk]) \<or>
      (m < ?n \<and> res = Inr (ins, sk) \<and> 1 + m = ?n \<and>
       evs = LoadingStarted # committed_events ?n 1 m @
          [BatchProcessing (1 + m) ?n, ConnectionLost (1 + m) ?n (length (?bs ! m)),
           RollbackSuccessful (length (?bs ! m)) (1 + m) ins, LoadingComplete ins sk]) \<or>
      (m < ?n \<and> isl res \<and>
       evs = LoadingStarted # committed_events ?n 1 m @ [BatchProcessing (1 + m) ?n])"
    by blast
  have u: "[1 ..< 1 + m] @ [1 + m] = [1 ..< 1 + m + 1]" by simp
  have p1: "concat ?bs = rows" by (rule concat_split_batches)
  have p2: "\<forall>i<?n. 0 < length (?bs ! i) \<and>
        length (?bs ! i) = (if i + 1 < ?n then 10 else length rows - 10 * i)"
    using length_batch by blast
  have p3: "\<exists>a\<le>?n. attempted evs = [1 ..< a + 1]"
  proof -
    from alt consider
      (all) "m = ?n" "evs = LoadingStarted # committed_events ?n 1 m @ [LoadingComplete ins sk]" |
      (lost) "m < ?n" "evs = LoadingStarted # committed_events ?n 1 m @
          [BatchProcessing (1 + m) ?n, ConnectionLost (1 + m) ?n (length (?bs ! m)),
           RollbackSuccessful (length (?bs ! m)) (1 + m) ins, LoadingComplete ins sk]" |
      (raised) "m < ?n" "evs = LoadingStarted # committed_events ?n 1 m @ [BatchProcessing (1 + m) ?n]"
      by blast
    then show ?thesis
    proof cases
      case all
      then have "attempted evs = [1 ..< m + 1]"
        by (simp add: attempted_append attempted_committed_events del: upt_Suc)
      with all(1) show ?thesis by blast
    next
      case lost
      then have "attempted evs = [1 ..< (m + 1) + 1]"
        using u by (simp add: attempted_append attempted_committed_events del: upt_Suc)
      moreover from lost(1) have "m + 1 \<le> ?n" by simp
      ultimately show ?thesis by blast
    next
      case raised
      then have "attempted evs = [1 ..< (m + 1) + 1]"
        using u by (simp add: attempted_append attempted_committed_events del: upt_Suc)
      moreover from raised(1) have "m + 1 \<le> ?n" by simp
      ultimately show ?thesis by blast
    qed
  qed
  have p4: "\<forall>k n len. ConnectionLost k n len \<in> set evs \<longrightarrow>
        n = ?n \<and> 1 \<le> k \<and> k \<le> n \<and> k = n \<and>
        len = length (?bs ! (k - 1)) \<and>
        attempted evs = [1 ..< k + 1] \<and>
        committed_batches evs = [1 ..< k] \<and>
        (\<exists>ins sk c.
           commit_batches B (take (k - 1) ?bs)
             (0, 0, \<lparr>committed = disk, working = disk\<rparr>) = Inr (ins, sk, c) \<and>
           res = Inr (ins, sk) \<and> disk' = committed c \<and>
           ins + sk = length (concat (take (k - 1) ?bs))) \<and>
        concat (take (k - 1) ?bs) = take ((k - 1) * 10) rows \<and>
        prefix disk disk' \<and>
        (\<forall>row\<in>set (take ((k - 1) * 10) rows).
           \<exists>v. row ''order_id'' = Some v \<and> v \<in> hd ` set disk')"
  proof (intro allI impI)
    fix k n len
    assume cl: "ConnectionLost k n len \<in> set evs"
    from alt cl have lost: "m < ?n" "res = Inr (ins, sk)"
      "evs = LoadingStarted # committed_events ?n 1 m @
          [BatchProcessing (1 + m) ?n, ConnectionLost (1 + m) ?n (length (?bs ! m)),
           RollbackSuccessful (length (?bs ! m)) (1 + m) ins, LoadingComplete ins sk]"
      and last: "1 + m = ?n"
      by (auto simp: no_connection_lost_committed_events)
    with cl have k: "k = 1 + m" "n = ?n" "len = length (?bs ! m)"
      by (auto simp: no_connection_lost_committed_events)
    then have km: "k - 1 = m" by simp
    from lost(3) have a: "attempted evs = [1 ..< k + 1]"
      unfolding k(1) using u
      by (simp add: attempted_append attempted_committed_events del: upt_Suc)
    from lost(3) have cm: "committed_batches evs = [1 ..< k]"
      unfolding k(1)
      by (simp add: committed_batches_append committed_batches_committed_events del: upt_Suc)
    have "committed \<lparr>committed = disk, working = disk\<rparr> =
            working \<lparr>committed = disk, working = disk\<rparr>" by simp
    from commit_batches_result [OF cb this, unfolded connection.select_convs add_0]
    have r: "prefix disk (committed c)"
      "\<forall>row\<in>set (concat (take m ?bs)). \<exists>v. row ''order_id'' = Some v \<and> v \<in> hd ` set (committed c)"
      "ins + sk = length (concat (take m ?bs))"
      by blast+
    have ct: "concat (take m ?bs) = take (m * 10) rows"
      using m by (rule concat_take_split_batches)
    from cb lost(2) d r(3) have ex: "\<exists>ins sk c.
           commit_batches B (take m ?bs)
             (0, 0, \<lparr>committed = disk, working = disk\<rparr>) = Inr (ins, sk, c) \<and>
           res = Inr (ins, sk) \<and> disk' = committed c \<and>
           ins + sk = length (concat (take m ?bs))"
      by blast
    from k last have kn: "k = n" by simp
    from k lost(1) have "n = ?n \<and> 1 \<le> k \<and> k \<le> n \<and> len = length (?bs ! (k - 1))"
      by (simp add: km)
    with kn
    have "n = ?n \<and> 1 \<le> k \<and> k \<le> n \<and> k = n \<and> len = length (?bs ! (k - 1))"
      by blast
    with a cm ex r(1,2) d show "n = ?n \<and> 1 \<le> k \<and> k \<le> n \<and> k = n \<and>
        len = length (?bs ! (k - 1)) \<and>
        attempted evs = [1 ..< k + 1] \<and>
        committed_batches evs = [1 ..< k] \<and>
        (\<exists>ins sk c.
           commit_batches B (take (k - 1) ?bs)
             (0, 0, \<lparr>committed = disk, working = disk\<rparr>) = Inr (ins, sk, c) \<and>
           res = Inr (ins, sk) \<and> disk' = committed c \<and>
           ins + sk = length (concat (take (k - 1) ?bs))) \<and>
        concat (take (k - 1) ?bs) = take ((k - 1) * 10) rows \<and>
        prefix disk disk' \<and>
        (\<forall>row\<in>set (take ((k - 1) * 10) rows).
           \<exists>v. row ''order_id'' = Some v \<and> v \<in> hd ` set disk')"
      unfolding km ct by simp
  qed
  show ?thesis by (rule conjI [OF p1 conjI [OF p2 conjI [OF p3 p4]]])
qed

lemma insert_params_loader_row:
  "insert_params sample_builtins (loader_row oid) = Inr (loader_params oid)"
  by (simp add: insert_params_def loader_row_def loader_params_def get_default_def
        sample_builtins_def)

lemma execute_insert_loader_params:
  "execute_insert t (loader_params oid) =
     Inr (if PStr oid \<in> set (map hd t) then (0, t) else (1, t @ [loader_params oid]))"
  by (simp add: execute_insert_def loader_params_def)

lemma hd_loader_params: "hd (loader_params oid) = PStr oid"
  by (simp add: loader_params_def)

lemma split_batches_eleven:
  "split_batches [a, b, c, d, e, f, g, h, i, j, k] = [[a, b, c, d, e, f, g, h, i, j], [k]]"
  by (simp add: split_batches_def range_step_def BATCH_SIZE_def numeral_2_eq_2)

lemma load_first_batch:
  "load_batch sample_builtins \<lparr>committed = [], working = []\<rparr>
     (map loader_row [''a'', ''b'', ''c'', ''d'', ''e'', ''f'', ''g'', ''h'', ''i'', ''j'']) n =
   Inr (10, 0, \<lparr>committed = [],
        working = map loader_params [''a'', ''b'', ''c'', ''d'', ''e'', ''f'', ''g'', ''h'', ''i'', ''j'']\<rparr>)"
  by (simp add: load_batch_def insert_params_loader_row execute_insert_loader_params
        hd_loader_params)

lemma sample_run_loading:
  "run_loading sample_builtins
     (map loader_row [''a'', ''b'', ''c'', ''d'', ''e'', ''f'', ''g'', ''h'', ''i'', ''j'', ''k''])
     None [] failing_rng =
   ([LoadingStarted, BatchProcessing 1 2, BatchCommitted 1, BatchProcessing 2 2,
     ConnectionLost 2 2 1, RollbackSuccessful 1 2 10, LoadingComplete 10 0],
    map loader_params [''a'', ''b'', ''c'', ''d'', ''e'', ''f'', ''g'', ''h'', ''i'', ''j''],
    failing_rng\<lparr>random_pos := 1\<rparr>, Inr (10, 0))"
proof -
  have s: "split_batches
     (map loader_row [''a'', ''b'', ''c'', ''d'', ''e'', ''f'', ''g'', ''h'', ''i'', ''j'', ''k'']) =
     [map loader_row [''a'', ''b'', ''c'', ''d'', ''e'', ''f'', ''g'', ''h'', ''i'', ''j''],
      [loader_row ''k'']]"
    using split_batches_eleven by simp
  have l: "load_batch sample_builtins \<lparr>committed = [], working = []\<rparr>
     [loader_row ''a'', loader_row ''b'', loader_row ''c'', loader_row ''d'', loader_row ''e'',
      loader_row ''f'', loader_row ''g'', loader_row ''h'', loader_row ''i'', loader_row ''j''] n =
   Inr (10, 0, \<lparr>committed = [],
        working = map loader_params [''a'', ''b'', ''c'', ''d'', ''e'', ''f'', ''g'', ''h'', ''i'', ''j'']\<rparr>)"
    for n
    using load_first_batch [of n] by simp
  have f: "float_lt sample_builtins (1 / 10) (float_const sample_builtins (3 / 10))"
    by (simp add: sample_builtins_def)
  show ?thesis
    unfolding run_loading_def s
    by (simp add: create_database_def enumerate1_def l f simulate_connection_issue_def
          random_random_def failing_rng_def commit_def rollback_def
          del: load_rows.simps)
qed

theorem run_loading_batch_atomicity_witness:
  "\<exists>evs disk'.
     run_loading sample_builtins
       (map loader_row [''a'', ''b'', ''c'', ''d'', ''e'', ''f'', ''g'', ''h'', ''i'', ''j'', ''k''])
       None [] failing_rng = (evs, disk', failing_rng\<lparr>random_pos := 1\<rparr>, Inr (10, 0)) \<and>
     ConnectionLost 2 2 1 \<in> set evs \<and>
     attempted evs = [1 ..< 2 + 1] \<and> committed_batches evs = [1 ..< 2] \<and>
     (\<forall>row\<in>set (take ((2 - 1) * 10)
          (map loader_row [''a'', ''b'', ''c'', ''d'', ''e'', ''f'', ''g'', ''h'', ''i'', ''j'', ''k''])).
        \<exists>v. row ''order_id'' = Some v \<and> v \<in> hd ` set disk') \<and>
     PStr ''k'' \<notin> hd ` set disk'"
proof -
  let ?evs = "[LoadingStarted, BatchProcessing 1 2, BatchCommitted 1, BatchProcessing 2 2,
     ConnectionLost 2 2 1, RollbackSuccessful 1 2 10, LoadingComplete 10 0]"
  let ?disk = "map loader_params [''a'', ''b'', ''c'', ''d'', ''e'', ''f'', ''g'', ''h'', ''i'', ''j'']"
  have cl: "ConnectionLost 2 2 1 \<in> set ?evs" by simp
  have nk: "PStr ''k'' \<notin> hd ` set ?disk" by (simp add: hd_loader_params)
  note t = run_loading_batch_atomicity [OF sample_run_loading]
  note p = t [THEN conjunct2, THEN conjunct2, THEN conjunct2, rule_format, OF cl]
  from p have "attempted ?evs = [1 ..< 2 + 1]" "committed_batches ?evs = [1 ..< 2]"
    "\<forall>row\<in>set (take ((2 - 1) * 10)
          (map loader_row [''a'', ''b'', ''c'', ''d'', ''e'', ''f'', ''g'', ''h'', ''i'', ''j'', ''k''])).
        \<exists>v. row ''order_id'' = Some v \<and> v \<in> hd ` set ?disk"
    by blast+
  with sample_run_loading cl nk show ?thesis by blast
qed

section \<open>Properties of run\_pipeline\<close>

lemma phases_append: "phases (xs @ ys) = phases xs @ phases ys"
  by (simp add: phases_def)

lemma phases_Cons:
  "phases (e # es) =
     (if e = ExtractionStarted \<or> e = TransformationStarted \<or> e = LoadingStarted
      then e # phases es else phases es)"
  by (simp add: phases_def)

lemma phases_Nil: "phases [] = []"
  by (simp add: phases_def)

lemma phases_committed_events: "phases (committed_events tb i m) = []"
  by (induction m arbitrary: i) (simp_all add: phases_def)

lemma run_extraction_log:
  assumes "run_extraction B c j r = (l, r', x)"
  shows "phases l = [ExtractionStarted]"
    and "\<And>data. x = Inr data \<Longrightarrow> data ''sales_data'' = Some (map Row (extract_csv c))"
  using assms
  by (auto simp: run_extraction_def Let_def case_prod_beta phases_def
           split: if_splits sum.splits)

lemma run_transformation_log:
  assumes "run_transformation B data = (l, x)"
  shows "phases l = [TransformationStarted]"
  using assms
  by (auto simp: run_transformation_def Let_def phases_def
           split: option.splits sum.splits prod.splits)

lemma run_loading_log:
  assumes "run_loading B rows oe disk r = (l, d, r', x)"
  shows "phases l = [LoadingStarted]"
proof (cases oe)
  case (Some e)
  with assms show ?thesis
    by (auto simp: run_loading_def create_database_def phases_def)
next
  case None
  with assms have "run_loading B rows None disk r = (l, d, r', x)" by simp
  from run_loading_cases [OF this] obtain m tail where
    "l = [LoadingStarted] @ committed_events (length (split_batches rows)) 1 m @ tail"
    "phases tail = []"
    by (auto simp: phases_def)
  moreover have "phases [LoadingStarted] = [LoadingStarted]" by (simp add: phases_def)
  ultimately show ?thesis
    by (simp only: phases_append phases_committed_events append_Nil2 append_Nil)
qed

text \<open>
  Claim C9. A run of \<open>run_pipeline\<close> ends in exactly one of four ways. Extraction raises:
  the stats report one error and \<open>phase_failed = "extraction"\<close>, all counts are zero, and
  extraction is the only phase the log reports as started. Transformation raises: the
  stats report the number of extracted rows, one error and \<open>phase_failed =
  "transformation"\<close>, and the phases started are extraction then transformation. Loading
  raises: the stats report the extracted and transformed counts, one error and
  \<open>phase_failed = "loading"\<close>, and the three phases were started in order. Or no phase
  raises: the stats report all four counts, no error and \<open>phase_failed = None\<close>. Every
  phase is started at most once, and the table on disk is untouched unless loading started.
\<close>

theorem run_pipeline_stages:
  assumes "run_pipeline B env = (st, evs, disk')"
  shows
   "(\<exists>l1 r1 e. run_extraction B (csv_file env) (json_file env) (generator env) = (l1, r1, Inl e) \<and>
       st = \<lparr>extracted = 0, transformed = 0, loaded = 0, skipped = 0, errors = 1,
             phase_failed = Some ''extraction''\<rparr> \<and>
       phases evs = [ExtractionStarted] \<and> disk' = db_table env) \<or>
    (\<exists>l1 r1 data l2 e.
       run_extraction B (csv_file env) (json_file env) (generator env) = (l1, r1, Inr data) \<and>
       run_transformation B data = (l2, Inl e) \<and>
       st = \<lparr>extracted = length (extract_csv (csv_file env)), transformed = 0, loaded = 0,
             skipped = 0, errors = 1, phase_failed = Some ''transformation''\<rparr> \<and>
       phases evs = [ExtractionStarted, TransformationStarted] \<and> disk' = db_table env) \<or>
    (\<exists>l1 r1 data l2 cleaned_rows l3 r3 e.
       run_extraction B (csv_file env) (json_file env) (generator env) = (l1, r1, Inr data) \<and>
       run_transformation B data = (l2, Inr cleaned_rows) \<and>
       run_loading B cleaned_rows (db_open_error env) (db_table env) r1 = (l3, disk', r3, Inl e) \<and>
       st = \<lparr>extracted = length (extract_csv (csv_file env)),
             transformed = length cleaned_rows, loaded = 0,
             skipped = 0, errors = 1, phase_failed = Some ''loading''\<rparr> \<and>
       phases evs = [ExtractionStarted, TransformationStarted, LoadingStarted]) \<or>
    (\<exists>l1 r1 data l2 cleaned_rows l3 r3 inserted skipped_rows.
       run_extraction B (csv_file env) (json_file env) (generator env) = (l1, r1, Inr data) \<and>
       run_transformation B data = (l2, Inr cleaned_rows) \<and>
       run_loading B cleaned_rows (db_open_error env) (db_table env) r1 =
         (l3, disk', r3, Inr (inserted, skipped_rows)) \<and>
       st = \<lparr>extracted = length (extract_csv (csv_file env)),
             transformed = length cleaned_rows, loaded = inserted,
             skipped = skipped_rows, errors = 0, phase_failed = None\<rparr> \<and>
       phases evs = [ExtractionStarted, TransformationStarted, LoadingStarted])"
proof -
  obtain l1 r1 x1 where ex: "run_extraction B (csv_file env) (json_file env) (generator env) = (l1, r1, x1)"
    by (cases "run_extraction B (csv_file env) (json_file env) (generator env)")
  note p1 = run_extraction_log(1) [OF ex]
  have single: "phases [PipelineStarted] = []" "phases [ExtractionFailed] = []"
    "phases [TransformationFailed] = []" "phases [LoadingFailed] = []"
    "phases [PipelineCompleted] = []"
    by (simp_all add: phases_def)
  show ?thesis
  proof (cases x1)
    case (Inl e)
    with assms ex have "st = \<lparr>extracted = 0, transformed = 0, loaded = 0, skipped = 0, errors = 1,
             phase_failed = Some ''extraction''\<rparr>"
      "evs = [PipelineStarted] @ l1 @ [ExtractionFailed]" "disk' = db_table env"
      by (simp_all add: run_pipeline_def initial_stats_def)
    with p1 single ex Inl show ?thesis
      by (simp add: phases_append phases_Cons phases_Nil)
  next
    case (Inr data)
    with run_extraction_log(2) [OF ex]
    have sd: "data ''sales_data'' = Some (map Row (extract_csv (csv_file env)))"
      by simp
    obtain l2 x2 where tr: "run_transformation B data = (l2, x2)"
      by (cases "run_transformation B data")
    note p2 = run_transformation_log [OF tr]
    show ?thesis
    proof (cases x2)
      case e2: (Inl e)
      with assms ex Inr sd tr have
        "st = \<lparr>extracted = length (extract_csv (csv_file env)), transformed = 0, loaded = 0,
             skipped = 0, errors = 1, phase_failed = Some ''transformation''\<rparr>"
        "evs = [PipelineStarted] @ l1 @ l2 @ [TransformationFailed]" "disk' = db_table env"
        by (simp_all add: run_pipeline_def initial_stats_def)
      with p1 p2 single ex Inr tr e2 show ?thesis
        by (simp add: phases_append phases_Cons phases_Nil)
    next
      case r2: (Inr cleaned_rows)
      obtain l3 d3 r3 x3 where
        ld: "run_loading B cleaned_rows (db_open_error env) (db_table env) r1 = (l3, d3, r3, x3)"
        by (cases "run_loading B cleaned_rows (db_open_error env) (db_table env) r1")
      note p3 = run_loading_log [OF ld]
      show ?thesis
      proof (cases x3)
        case e3: (Inl e)
        with assms ex Inr sd tr r2 ld have
          "st = \<lparr>extracted = length (extract_csv (csv_file env)),
             transformed = length cleaned_rows, loaded = 0,
             skipped = 0, errors = 1, phase_failed = Some ''loading''\<rparr>"
          "evs = [PipelineStarted] @ l1 @ l2 @ l3 @ [LoadingFailed]" "disk' = d3"
          by (simp_all add: run_pipeline_def initial_stats_def)
        with p1 p2 p3 single ex Inr tr r2 ld e3 show ?thesis
          by (simp add: phases_append phases_Cons phases_Nil)
      next
        case r3: (Inr counts)
        obtain inserted skipped_rows where c: "counts = (inserted, skipped_rows)"
          by (cases counts)
        with r3 assms ex Inr sd tr r2 ld have
          "st = \<lparr>extracted = length (extract_csv (csv_file env)),
             transformed = length cleaned_rows, loaded = inserted,
             skipped = skipped_rows, errors = 0, phase_failed = None\<rparr>"
          "evs = [PipelineStarted] @ l1 @ l2 @ l3 @ [PipelineCompleted]" "disk' = d3"
          by (simp_all add: run_pipeline_def initial_stats_def)
        with p1 p2 p3 single ex Inr tr r2 ld r3 c show ?thesis
          by (simp add: phases_append phases_Cons phases_Nil)
      qed
    qed
  qed
qed

lemma sample_row_accepted_any:
  "validate_row sample_builtins sample_row n =
     Inr (True, Some (sample_row(''quantity'' \<mapsto> PInt 2, ''unit_price'' \<mapsto> PFloat (1999 / 100),
             ''order_date'' \<mapsto> PStr ''2024-01-15'', ''total'' \<mapsto> PFloat (1999 / 50))), [])"
  by (simp add: validate_defs sample_builtins_def sample_row_def)

lemma sample_transformation:
  "run_transformation sample_builtins
     [''sales_data'' \<mapsto> [Row sample_row], ''product_catalog'' \<mapsto> [Row sample_product],
      ''api_data'' \<mapsto> map Row (api_records sample_builtins)] =
   ([TransformationStarted, ValidationComplete 1 0, TransformationComplete 1 1 0 0],
    Inr [sample_row(''quantity'' \<mapsto> PInt 2, ''unit_price'' \<mapsto> PFloat (1999 / 100),
             ''order_date'' \<mapsto> PStr ''2024-01-15'', ''total'' \<mapsto> PFloat (1999 / 50),
             ''anomaly_flags'' \<mapsto> PList [], ''product_name'' \<mapsto> PStr ''Widget'',
             ''category'' \<mapsto> PStr ''Tools'', ''current_stock'' \<mapsto> PInt 25)])"
  apply (simp add: run_transformation_def validate_items_def sample_row_accepted_any)
  apply (simp add: check_duplicates_def detect_anomalies_def anomaly_rule_def enrich_items_def
           HIGH_VALUE_ORDER_THRESHOLD_def HIGH_QUANTITY_THRESHOLD_def LOW_STOCK_THRESHOLD_def
           enrich_with_products_def enrich_state_def enrich_found_def sortable_def
           sample_row_def sample_product_def sample_builtins_def)
  done

lemma sample_loading:
  "run_loading sample_builtins
     [sample_row(''quantity'' \<mapsto> PInt 2, ''unit_price'' \<mapsto> PFloat (1999 / 100),
             ''order_date'' \<mapsto> PStr ''2024-01-15'', ''total'' \<mapsto> PFloat (1999 / 50),
             ''anomaly_flags'' \<mapsto> PList [], ''product_name'' \<mapsto> PStr ''Widget'',
             ''category'' \<mapsto> PStr ''Tools'', ''current_stock'' \<mapsto> PInt 25)]
     None [] (sample_rng\<lparr>choice_pos := 1\<rparr>) =
   ([LoadingStarted, BatchProcessing 1 1, BatchCommitted 1, LoadingComplete 1 0],
    [[PStr ''1001'', PStr ''Ann'', PStr ''ann@example.com'', PStr ''P1'', PStr ''Widget'',
      PStr ''Tools'', PInt 2, PFloat (1999 / 100), PFloat (1999 / 50), PStr ''2024-01-15'',
      PStr ''card'', PInt 25, PStr ''[]'']],
    sample_rng\<lparr>choice_pos := 1, random_pos := 1\<rparr>, Inr (1, 0))"
  by (simp add: run_loading_def create_database_def split_batches_def range_step_def
        BATCH_SIZE_def enumerate1_def simulate_connection_issue_def random_random_def
        load_batch_def insert_params_def get_default_def execute_insert_def commit_def
        sample_rng_def sample_row_def sample_builtins_def)

lemma sample_pipeline:
  "run_pipeline sample_builtins (sample_env [sample_row]) =
     (\<lparr>extracted = 1, transformed = 1, loaded = 1, skipped = 0, errors = 0, phase_failed = None\<rparr>,
      [PipelineStarted, ExtractionStarted, ExtractionComplete 4 1 1 2, TransformationStarted,
       ValidationComplete 1 0, TransformationComplete 1 1 0 0, LoadingStarted,
       BatchProcessing 1 1, BatchCommitted 1, LoadingComplete 1 0, PipelineCompleted],
      [[PStr ''1001'', PStr ''Ann'', PStr ''ann@example.com'', PStr ''P1'', PStr ''Widget'',
        PStr ''Tools'', PInt 2, PFloat (1999 / 100), PFloat (1999 / 50), PStr ''2024-01-15'',
        PStr ''card'', PInt 25, PStr ''[]'']])"
proof -
  have x: "run_extraction sample_builtins (Some [sample_row])
           (Some (JsonDocument sample_document)) sample_rng =
         ([ExtractionStarted, ExtractionComplete 4 1 1 2],
          sample_rng\<lparr>choice_pos := 1\<rparr>,
          Inr [''sales_data'' \<mapsto> [Row sample_row], ''product_catalog'' \<mapsto> [Row sample_product],
               ''api_data'' \<mapsto> map Row (api_records sample_builtins)])"
    using sample_extraction [of "[sample_row]"] by simp
  show ?thesis
    using sample_loading
    by (simp add: run_pipeline_def sample_env_def x sample_transformation initial_stats_def)
qed

theorem run_pipeline_stages_witness:
  "\<exists>evs disk'.
     run_pipeline sample_builtins (sample_env [sample_row]) =
       (\<lparr>extracted = 1, transformed = 1, loaded = 1, skipped = 0, errors = 0,
         phase_failed = None\<rparr>, evs, disk') \<and>
     phases evs = [ExtractionStarted, TransformationStarted, LoadingStarted]"
proof -
  from run_pipeline_stages [OF sample_pipeline]
  have "phases [PipelineStarted, ExtractionStarted, ExtractionComplete 4 1 1 2,
       TransformationStarted, ValidationComplete 1 0, TransformationComplete 1 1 0 0,
       LoadingStarted, BatchProcessing 1 1, BatchCommitted 1, LoadingComplete 1 0,
       PipelineCompleted] = [ExtractionStarted, TransformationStarted, LoadingStarted]"
    by auto
  with sample_pipeline show ?thesis by blast
qed

end
